theory Spec2Isabelle
  imports Complex_Main "HOL-Library.Log_Nat"
begin

section \<open>Data model\<close>

text \<open>
  The loyalty-points backend keeps four tables in a relational store reached through
  Prisma: users, transactions, promotions and events. Each table is a list of rows in
  insertion order (the order \<open>findMany\<close> returns), each row a record. Only the columns
  the ledger rules read or write are kept (no name, password, avatar or timestamps).

  A JavaScript number is an IEEE 754 double. A finite one is written as the rational it
  denotes (\<open>spent\<close>, \<open>rate\<close>, \<open>minSpending\<close>); the result of an arithmetic
  operation is an option, \<open>None\<close> standing for \<open>Infinity\<close>, \<open>-Infinity\<close> and \<open>NaN\<close>.
  The integer columns (point amounts, balances) are integers, without a bound. Times
  are integers (milliseconds).
\<close>

datatype role = Regular | Cashier | Manager | Superuser

datatype tx_type = Purchase | Redemption | Transfer | Adjustment | Event

datatype promo_type = Automatic | Onetime

record user =
  u_id :: nat
  u_utorid :: string
  u_email :: string
  u_role :: role
  u_points :: int
  u_verified :: bool
  u_suspicious :: bool

record transaction =
  t_id :: nat
  t_type :: tx_type
  t_amount :: int
  t_spent :: "rat option"
  t_redeemed :: "int option"
  t_suspicious :: bool
  t_remark :: string
  t_ownerUserId :: nat
  t_creatorUserId :: nat
  t_relatedUserId :: "nat option"
  t_relatedTransactionId :: "nat option"
  t_eventId :: "nat option"
  t_processorUserId :: "nat option"
  t_promotions :: "nat list"

record promotion =
  p_id :: nat
  p_type :: promo_type
  p_startTime :: int
  p_endTime :: int
  p_minSpending :: "rat option"
  p_rate :: "rat option"
  p_points :: "int option"
  p_usedBy :: "nat list"

record event =
  e_id :: nat
  e_pointsTotal :: int
  e_pointsAwarded :: int
  e_organizers :: "nat list"
  e_guests :: "nat list"

record store =
  users :: "user list"
  transactions :: "transaction list"
  promotions :: "promotion list"
  events :: "event list"

text \<open>
  A field of a JSON request body. The handlers test these with \<open>typeof\<close>,
  \<open>=== undefined\<close>, \<open>=== null\<close> and truthiness, so the value keeps its JSON type.
  \<open>JNum\<close> holds the finite double the body's number was parsed to.
\<close>

datatype jsval = JUndefined | JNull | JBool bool | JNum rat | JStr string

text \<open>
  What a handler answers when it does not succeed: the HTTP status it sends with its
  message, or \<open>Uncaught\<close> when the handler throws (a property read on \<open>null\<close>, a store
  call that rejects). A rejected one-time promotion carries the promotion id that the
  message names.
\<close>

datatype error =
  BadRequest string
  | Forbidden string
  | NotFound string
  | PromotionRejected nat string
  | Uncaught

text \<open>A successful answer: the HTTP status and the transaction rows the body is projected from.\<close>

datatype response = Response nat "transaction list"

type_synonym outcome = "store \<times> (error + response)"

section \<open>JavaScript helpers\<close>

definition nullish :: "jsval \<Rightarrow> bool" where
  "nullish v = (v = JUndefined \<or> v = JNull)"

fun falsy :: "jsval \<Rightarrow> bool" where
  "falsy JUndefined = True"
| "falsy JNull = True"
| "falsy (JBool b) = (\<not> b)"
| "falsy (JNum q) = (q = 0)"
| "falsy (JStr s) = (s = [])"

fun isInteger :: "jsval \<Rightarrow> bool" where
  "isInteger (JNum q) = (of_int \<lfloor>q\<rfloor> = q)"
| "isInteger _ = False"

subsection \<open>Double-precision arithmetic\<close>

text \<open>
  Rounding to the nearest integer, a tie going to the even one: how IEEE 754 rounds a
  significand.
\<close>

definition round_half_even :: "rat \<Rightarrow> int" where
  "round_half_even x =
     (let f = \<lfloor>x\<rfloor>; d = x - of_int f
      in if d < 1 / 2 then f else if 1 / 2 < d then f + 1 else if even f then f else f + 1)"

text \<open>The exponent \<open>e\<close> of a positive number: \<open>2\<^sup>e \<le> x < 2\<^sup>e\<^sup>+\<^sup>1\<close>.\<close>

definition binade :: "rat \<Rightarrow> int" where
  "binade x =
     (let k = bitlen (fst (quotient_of x)) - bitlen (snd (quotient_of x))
      in if 2 powi k \<le> x then k else k - 1)"

text \<open>
  The double nearest to a rational: 53 significant bits, exponents from -1022 (below
  which the spacing stays \<open>2\<^sup>-\<^sup>1\<^sup>0\<^sup>7\<^sup>4\<close>), and \<open>None\<close> when the rounded value reaches
  \<open>2\<^sup>1\<^sup>0\<^sup>2\<^sup>4\<close>, where the double is an infinity. The two zeros are not told apart.
\<close>

definition double_of :: "rat \<Rightarrow> rat option" where
  "double_of x =
     (if x = 0 then Some 0
      else let e = max (binade \<bar>x\<bar>) (- 1022);
               ulp = 2 powi (e - 52);
               y = of_int (round_half_even (x / ulp)) * ulp
           in if 2 powi 1024 \<le> \<bar>y\<bar> then None else Some y)"

text \<open>
  The operator \<open>/\<close> on two finite numbers: the exact quotient, rounded. The operands
  are doubles already, so rounding them first changes nothing; it makes the definition
  right also for a number given by its decimal literal. Division by zero gives an
  infinity or \<open>NaN\<close>.
\<close>

definition js_divide :: "rat \<Rightarrow> rat \<Rightarrow> rat option" where
  "js_divide a b =
     (case (double_of a, double_of b) of
        (Some x, Some y) \<Rightarrow> if y = 0 then None else double_of (x / y)
      | _ \<Rightarrow> None)"

text \<open>
  The operator \<open>+\<close>: the exact sum, rounded. A sum with an infinity or \<open>NaN\<close> is an
  infinity or \<open>NaN\<close>.
\<close>

definition js_plus :: "rat option \<Rightarrow> rat option \<Rightarrow> rat option" where
  "js_plus a b =
     (case (a, b) of (Some x, Some y) \<Rightarrow> double_of (x + y) | _ \<Rightarrow> None)"

text \<open>
  \<open>Math.round\<close> on a finite number: the nearest integer, a tie going up. The result is
  a double again; \<open>Math.round\<close> of an infinity or \<open>NaN\<close> is itself.
\<close>

definition js_round :: "rat \<Rightarrow> int" where
  "js_round q = \<lfloor>q + 1 / 2\<rfloor>"

definition Math_round :: "rat option \<Rightarrow> rat option" where
  "Math_round x = map_option (\<lambda>q. of_int (js_round q)) x"

text \<open>
  What an integer column keeps of a finite number: its whole part. The schema is not
  among the sources; the range of the column is not modelled.
\<close>

definition whole_part :: "rat \<Rightarrow> int" where
  "whole_part q = (if 0 \<le> q then \<lfloor>q\<rfloor> else \<lceil>q\<rceil>)"

section \<open>Access policy (middleware/auth.js)\<close>

fun roleHierarchy :: "role \<Rightarrow> nat" where
  "roleHierarchy Regular = 1"
| "roleHierarchy Cashier = 2"
| "roleHierarchy Manager = 3"
| "roleHierarchy Superuser = 4"

definition requireRole :: "role \<Rightarrow> role \<Rightarrow> bool" where
  "requireRole minRole userRole = (roleHierarchy userRole \<ge> roleHierarchy minRole)"

text \<open>The authenticated caller, as the JWT carries it in \<open>req.auth\<close>.\<close>

record auth =
  auth_id :: nat
  auth_role :: role

section \<open>The store's queries and commands\<close>

text \<open>
  \<open>findUnique\<close> is the first row with the key; \<open>update\<close> rewrites that row and rejects
  (\<open>None\<close>) when there is none; \<open>create\<close> assigns the next id of the table's sequence.
\<close>

fun update_first :: "('a \<Rightarrow> bool) \<Rightarrow> ('a \<Rightarrow> 'a) \<Rightarrow> 'a list \<Rightarrow> 'a list option" where
  "update_first P f [] = None"
| "update_first P f (x # xs) =
     (if P x then Some (f x # xs) else map_option (Cons x) (update_first P f xs))"

definition find_user :: "store \<Rightarrow> nat \<Rightarrow> user option" where
  "find_user s i = find (\<lambda>u. u_id u = i) (users s)"

definition find_user_by_utorid :: "store \<Rightarrow> string \<Rightarrow> user option" where
  "find_user_by_utorid s n = find (\<lambda>u. u_utorid u = n) (users s)"

definition find_transaction :: "store \<Rightarrow> nat \<Rightarrow> transaction option" where
  "find_transaction s i = find (\<lambda>t. t_id t = i) (transactions s)"

definition find_promotion :: "store \<Rightarrow> nat \<Rightarrow> promotion option" where
  "find_promotion s i = find (\<lambda>p. p_id p = i) (promotions s)"

definition find_event :: "store \<Rightarrow> nat \<Rightarrow> event option" where
  "find_event s i = find (\<lambda>e. e_id e = i) (events s)"

definition user_update :: "nat \<Rightarrow> (user \<Rightarrow> user) \<Rightarrow> store \<Rightarrow> store option" where
  "user_update i f s =
     map_option (\<lambda>us. s\<lparr>users := us\<rparr>) (update_first (\<lambda>u. u_id u = i) f (users s))"

definition transaction_update :: "nat \<Rightarrow> (transaction \<Rightarrow> transaction) \<Rightarrow> store \<Rightarrow> store option" where
  "transaction_update i f s =
     map_option (\<lambda>ts. s\<lparr>transactions := ts\<rparr>) (update_first (\<lambda>t. t_id t = i) f (transactions s))"

definition promotion_update :: "nat \<Rightarrow> (promotion \<Rightarrow> promotion) \<Rightarrow> store \<Rightarrow> store option" where
  "promotion_update i f s =
     map_option (\<lambda>ps. s\<lparr>promotions := ps\<rparr>) (update_first (\<lambda>p. p_id p = i) f (promotions s))"

definition event_update :: "nat \<Rightarrow> (event \<Rightarrow> event) \<Rightarrow> store \<Rightarrow> store option" where
  "event_update i f s =
     map_option (\<lambda>es. s\<lparr>events := es\<rparr>) (update_first (\<lambda>e. e_id e = i) f (events s))"

definition increment_points :: "int \<Rightarrow> user \<Rightarrow> user" where
  "increment_points n u = u\<lparr>u_points := u_points u + n\<rparr>"

definition decrement_points :: "int \<Rightarrow> user \<Rightarrow> user" where
  "decrement_points n u = u\<lparr>u_points := u_points u - n\<rparr>"

text \<open>\<open>usedBy: { connect: { id } }\<close> adds the user to the relation unless already there.\<close>

definition connect_usedBy :: "nat \<Rightarrow> promotion \<Rightarrow> promotion" where
  "connect_usedBy uid p = p\<lparr>p_usedBy := List.insert uid (p_usedBy p)\<rparr>"

definition next_transaction_id :: "store \<Rightarrow> nat" where
  "next_transaction_id s = Suc (fold max (map t_id (transactions s)) 0)"

text \<open>
  The column defaults of a new transaction row. The schema file is not part of the
  sources; the handlers that omit \<open>suspicious\<close> and the optional references rely on
  these defaults (false and null).
\<close>

definition transaction_defaults :: transaction where
  "transaction_defaults =
     \<lparr>t_id = 0, t_type = Purchase, t_amount = 0, t_spent = None, t_redeemed = None,
      t_suspicious = False, t_remark = [], t_ownerUserId = 0, t_creatorUserId = 0,
      t_relatedUserId = None, t_relatedTransactionId = None, t_eventId = None,
      t_processorUserId = None, t_promotions = []\<rparr>"

text \<open>
  \<open>prisma.transaction.create\<close>: rejects when the owner, the creator or a promotion to
  connect does not exist; otherwise appends the row under a fresh id and returns it.
  The connected promotions are a relation, so an id listed twice is kept once.
\<close>

definition transaction_create :: "transaction \<Rightarrow> store \<Rightarrow> (store \<times> transaction) option" where
  "transaction_create d s =
     (if find_user s (t_ownerUserId d) = None \<or> find_user s (t_creatorUserId d) = None
         \<or> (\<exists>i \<in> set (t_promotions d). find_promotion s i = None)
      then None
      else let t = d\<lparr>t_id := next_transaction_id s,
                     t_promotions := remdups (t_promotions d)\<rparr>
           in Some (s\<lparr>transactions := transactions s @ [t]\<rparr>, t))"

section \<open>Points rules (routes/transactions.js, purchase branch)\<close>

text \<open>
  The body of both loops: \<open>if (promo.rate) earnedPoints += Math.round(spent /
  promo.rate)\<close>, then \<open>if (promo.points) earnedPoints += promo.points\<close>, each guarded by
  truthiness, each \<open>+=\<close> a double addition.
\<close>

definition add_promotion_points :: "rat \<Rightarrow> promotion \<Rightarrow> rat option \<Rightarrow> rat option" where
  "add_promotion_points spent p earnedPoints =
     (let withRate =
            (case p_rate p of
               Some r \<Rightarrow> if r \<noteq> 0 then js_plus earnedPoints (Math_round (js_divide spent r))
                         else earnedPoints
             | None \<Rightarrow> earnedPoints)
      in case p_points p of
           Some n \<Rightarrow> if n \<noteq> 0 then js_plus withRate (Some (of_int n)) else withRate
         | None \<Rightarrow> withRate)"

text \<open>The \<open>findMany\<close> for the automatic promotions active now that the spend reaches.\<close>

definition automaticPromotions :: "store \<Rightarrow> int \<Rightarrow> rat \<Rightarrow> promotion list" where
  "automaticPromotions s now spent =
     filter (\<lambda>p. p_type p = Automatic \<and> p_startTime p \<le> now \<and> now \<le> p_endTime p
                 \<and> (case p_minSpending p of None \<Rightarrow> True | Some m \<Rightarrow> m \<le> spent))
            (promotions s)"

text \<open>The first loop: every automatic promotion is recorded and its points added.\<close>

fun apply_automatic ::
  "rat \<Rightarrow> promotion list \<Rightarrow> rat option \<times> nat list \<Rightarrow> rat option \<times> nat list" where
  "apply_automatic spent [] acc = acc"
| "apply_automatic spent (p # ps) (earnedPoints, appliedPromotionIds) =
     apply_automatic spent ps
       (add_promotion_points spent p earnedPoints, appliedPromotionIds @ [p_id p])"

text \<open>
  The second loop, over the requested promotion ids: the first id that fails a check
  ends the request with status 400.
\<close>

fun apply_requested ::
  "store \<Rightarrow> int \<Rightarrow> rat \<Rightarrow> nat \<Rightarrow> nat list \<Rightarrow> rat option \<times> nat list
   \<Rightarrow> error + (rat option \<times> nat list)" where
  "apply_requested s now spent uid [] acc = Inr acc"
| "apply_requested s now spent uid (promoId # rest) (earnedPoints, appliedPromotionIds) =
     (case find_promotion s promoId of
        None \<Rightarrow> Inl (PromotionRejected promoId ''not found'')
      | Some promotion \<Rightarrow>
          if p_type promotion \<noteq> Onetime
            then Inl (PromotionRejected promoId ''is not a one-time promotion'')
          else if p_startTime promotion > now \<or> p_endTime promotion < now
            then Inl (PromotionRejected promoId ''is not active'')
          else if uid \<in> set (p_usedBy promotion)
            then Inl (PromotionRejected promoId ''has already been used'')
          else if (case p_minSpending promotion of None \<Rightarrow> False
                   | Some m \<Rightarrow> m \<noteq> 0 \<and> spent < m)
            then Inl (PromotionRejected promoId ''Minimum spending not met'')
          else apply_requested s now spent uid rest
                 (add_promotion_points spent promotion earnedPoints,
                  appliedPromotionIds @ [promoId]))"

text \<open>
  The whole computation of \<open>earnedPoints\<close> and \<open>appliedPromotionIds\<close> for a purchase of
  \<open>spent\<close> by user \<open>uid\<close> at time \<open>now\<close>.
\<close>

definition computePurchasePoints ::
  "store \<Rightarrow> int \<Rightarrow> rat \<Rightarrow> nat \<Rightarrow> nat list \<Rightarrow> error + (rat option \<times> nat list)" where
  "computePurchasePoints s now spent uid safePromotionIds =
     apply_requested s now spent uid safePromotionIds
       (apply_automatic spent (automaticPromotions s now spent)
          (Math_round (js_divide spent (1 / 4)), []))"

text \<open>The usage updates after a purchase that is not suspicious, one per requested id.\<close>

fun mark_used :: "nat \<Rightarrow> nat list \<Rightarrow> store \<Rightarrow> store option" where
  "mark_used uid [] s = Some s"
| "mark_used uid (promoId # rest) s =
     (case promotion_update promoId (connect_usedBy uid) s of
        None \<Rightarrow> None
      | Some s' \<Rightarrow> mark_used uid rest s')"

section \<open>POST /transactions (routes/transactions.js)\<close>

record transaction_body =
  b_utorid :: jsval
  b_type :: jsval
  b_spent :: jsval
  b_amount :: jsval
  b_relatedId :: "nat option"
  b_promotionIds :: "nat list option"
  b_remark :: string

definition safePromotionIds :: "transaction_body \<Rightarrow> nat list" where
  "safePromotionIds b = (case b_promotionIds b of None \<Rightarrow> [] | Some ids \<Rightarrow> ids)"

text \<open>
  The purchase branch. \<open>earnedPoints\<close> is a sum of \<open>Math.round\<close> results and integer
  bonuses, so a whole number when it is finite; the store rejects an amount that is an
  infinity or \<open>NaN\<close>.
\<close>

definition purchase :: "auth \<Rightarrow> transaction_body \<Rightarrow> int \<Rightarrow> store \<Rightarrow> outcome" where
  "purchase a b now s =
     (if auth_role a \<notin> {Cashier, Manager, Superuser} then (s, Inl (Forbidden ''Forbidden''))
      else if nullish (b_spent b)
        then (s, Inl (BadRequest ''spent is required for purchase transactions''))
      else case b_spent b of
        JNum spent \<Rightarrow>
          if spent \<le> 0 then (s, Inl (BadRequest ''spent must be a positive number''))
          else (case b_utorid b of
            JStr utorid \<Rightarrow>
              (case find_user_by_utorid s utorid of
                 None \<Rightarrow> (s, Inl (NotFound ''User not found''))
               | Some usr \<Rightarrow>
                  (case computePurchasePoints s now spent (u_id usr) (safePromotionIds b) of
                     Inl e \<Rightarrow> (s, Inl e)
                   | Inr (earnedPoints, appliedPromotionIds) \<Rightarrow>
                      (case find_user s (auth_id a) of
                         None \<Rightarrow> (s, Inl Uncaught)
                       | Some cashier \<Rightarrow>
                          let isSuspicious = u_suspicious cashier in
                          (case earnedPoints of
                             None \<Rightarrow> (s, Inl Uncaught)
                           | Some points \<Rightarrow>
                          (case transaction_create
                                  (transaction_defaults\<lparr>t_type := Purchase,
                                     t_amount := whole_part points, t_spent := Some spent,
                                     t_remark := b_remark b, t_suspicious := isSuspicious,
                                     t_ownerUserId := u_id usr, t_creatorUserId := auth_id a,
                                     t_promotions := appliedPromotionIds\<rparr>) s of
                             None \<Rightarrow> (s, Inl Uncaught)
                           | Some (s1, t) \<Rightarrow>
                              if isSuspicious then (s1, Inr (Response 201 [t]))
                              else (case user_update (u_id usr)
                                           (increment_points (whole_part points)) s1 of
                                      None \<Rightarrow> (s1, Inl Uncaught)
                                    | Some s2 \<Rightarrow>
                                       (case mark_used (u_id usr) (safePromotionIds b) s2 of
                                          None \<Rightarrow> (s2, Inl Uncaught)
                                        | Some s3 \<Rightarrow> (s3, Inr (Response 201 [t])))))))))
          | _ \<Rightarrow> (s, Inl Uncaught))
      | _ \<Rightarrow> (s, Inl (BadRequest ''spent must be a positive number'')))"

text \<open>
  The adjustment branch. \<open>amount\<close> only has to be a number; the integer columns keep
  the whole part of one that is not whole.
\<close>

definition adjustment :: "auth \<Rightarrow> transaction_body \<Rightarrow> store \<Rightarrow> outcome" where
  "adjustment a b s =
     (if auth_role a \<notin> {Manager, Superuser} then (s, Inl (Forbidden ''Forbidden''))
      else if nullish (b_amount b)
        then (s, Inl (BadRequest ''amount is required for adjustment transactions''))
      else case b_amount b of
        JNum amount \<Rightarrow>
          (case b_utorid b of
            JStr utorid \<Rightarrow>
              (case find_user_by_utorid s utorid of
                 None \<Rightarrow> (s, Inl (NotFound ''User not found''))
               | Some usr \<Rightarrow>
                  (case b_relatedId b of
                     None \<Rightarrow> (s, Inl (BadRequest ''relatedId is required for adjustment transactions''))
                   | Some relatedId \<Rightarrow>
                      (case find_transaction s relatedId of
                         None \<Rightarrow> (s, Inl (NotFound ''Related transaction not found''))
                       | Some relatedTransaction \<Rightarrow>
                          (case transaction_create
                                  (transaction_defaults\<lparr>t_type := Adjustment,
                                     t_amount := whole_part amount, t_remark := b_remark b,
                                     t_suspicious := False, t_ownerUserId := u_id usr,
                                     t_creatorUserId := auth_id a,
                                     t_relatedTransactionId := Some relatedId,
                                     t_promotions := safePromotionIds b\<rparr>) s of
                             None \<Rightarrow> (s, Inl Uncaught)
                           | Some (s1, t) \<Rightarrow>
                              (case user_update (u_id usr) (increment_points (whole_part amount)) s1 of
                                 None \<Rightarrow> (s1, Inl Uncaught)
                               | Some s2 \<Rightarrow>
                                  (case find_user s2 (auth_id a) of
                                     None \<Rightarrow> (s2, Inl Uncaught)
                                   | Some manager \<Rightarrow> (s2, Inr (Response 201 [t]))))))))
          | _ \<Rightarrow> (s, Inl Uncaught))
      | _ \<Rightarrow> (s, Inl (BadRequest ''amount must be a number'')))"

definition post_transactions :: "auth \<Rightarrow> transaction_body \<Rightarrow> int \<Rightarrow> store \<Rightarrow> outcome" where
  "post_transactions a b now s =
     (if falsy (b_utorid b) \<or> falsy (b_type b)
        then (s, Inl (BadRequest ''utorid and type are required''))
      else if b_type b = JStr ''purchase'' then purchase a b now s
      else if b_type b = JStr ''adjustment'' then adjustment a b s
      else (s, Inl (BadRequest ''Invalid transaction type'')))"

section \<open>PATCH /transactions/:transactionId/suspicious\<close>

text \<open>
  The path parameter after \<open>parseInt\<close>: \<open>None\<close> is \<open>NaN\<close>. The handler reads the row,
  writes the new flag, then moves the row's amount into or out of the owner's balance
  according to the old and the new flag.
\<close>

fun connect_owner :: "nat \<Rightarrow> promotion list \<Rightarrow> store \<Rightarrow> store option" where
  "connect_owner uid [] s = Some s"
| "connect_owner uid (promo # rest) s =
     (case promotion_update (p_id promo) (connect_usedBy uid) s of
        None \<Rightarrow> None
      | Some s' \<Rightarrow> connect_owner uid rest s')"

definition patch_suspicious :: "auth \<Rightarrow> nat option \<Rightarrow> jsval \<Rightarrow> store \<Rightarrow> outcome" where
  "patch_suspicious a transactionId suspicious s =
     (if \<not> requireRole Manager (auth_role a) then (s, Inl (Forbidden ''Insufficient permissions''))
      else if nullish suspicious then (s, Inl (BadRequest ''suspicious field is required''))
      else case suspicious of
        JBool susp \<Rightarrow>
          (case transactionId of
             None \<Rightarrow> (s, Inl (BadRequest ''Invalid transaction ID''))
           | Some txId \<Rightarrow>
              (case find_transaction s txId of
                 None \<Rightarrow> (s, Inl (NotFound ''Transaction not found''))
               | Some tx \<Rightarrow>
                  let wasSuspicious = t_suspicious tx in
                  (case transaction_update txId (\<lambda>t. t\<lparr>t_suspicious := susp\<rparr>) s of
                     None \<Rightarrow> (s, Inl Uncaught)
                   | Some s1 \<Rightarrow>
                      if wasSuspicious \<and> \<not> susp then
                        (case user_update (t_ownerUserId tx) (increment_points (t_amount tx)) s1 of
                           None \<Rightarrow> (s1, Inl Uncaught)
                         | Some s2 \<Rightarrow>
                            let onetimePromotions =
                                  filter (\<lambda>p. p_id p \<in> set (t_promotions tx) \<and> p_type p = Onetime)
                                         (promotions s2)
                            in (case connect_owner (t_ownerUserId tx) onetimePromotions s2 of
                                  None \<Rightarrow> (s2, Inl Uncaught)
                                | Some s3 \<Rightarrow> (s3, Inr (Response 200 [tx\<lparr>t_suspicious := susp\<rparr>]))))
                      else if \<not> wasSuspicious \<and> susp then
                        (case user_update (t_ownerUserId tx) (decrement_points (t_amount tx)) s1 of
                           None \<Rightarrow> (s1, Inl Uncaught)
                         | Some s2 \<Rightarrow> (s2, Inr (Response 200 [tx\<lparr>t_suspicious := susp\<rparr>])))
                      else (s1, Inr (Response 200 [tx\<lparr>t_suspicious := susp\<rparr>])))))
      | _ \<Rightarrow> (s, Inl (BadRequest ''suspicious must be a boolean'')))"

section \<open>PATCH /transactions/:transactionId/processed\<close>

definition patch_processed :: "auth \<Rightarrow> nat option \<Rightarrow> jsval \<Rightarrow> store \<Rightarrow> outcome" where
  "patch_processed a transactionId processed s =
     (if \<not> requireRole Cashier (auth_role a) then (s, Inl (Forbidden ''Insufficient permissions''))
      else if processed \<noteq> JBool True then (s, Inl (BadRequest ''processed must be true''))
      else case transactionId of
        None \<Rightarrow> (s, Inl (BadRequest ''Invalid transaction ID''))
      | Some txId \<Rightarrow>
         (case find_transaction s txId of
            None \<Rightarrow> (s, Inl (NotFound ''Transaction not found''))
          | Some tx \<Rightarrow>
             if t_type tx \<noteq> Redemption
               then (s, Inl (BadRequest ''Transaction is not a redemption''))
             else if t_processorUserId tx \<noteq> None
               then (s, Inl (BadRequest ''Redemption already processed''))
             else (case transaction_update txId
                          (\<lambda>t. t\<lparr>t_processorUserId := Some (auth_id a),
                                 t_redeemed := Some \<bar>t_amount tx\<bar>\<rparr>) s of
                     None \<Rightarrow> (s, Inl Uncaught)
                   | Some s1 \<Rightarrow>
                      (case user_update (t_ownerUserId tx) (decrement_points \<bar>t_amount tx\<bar>) s1 of
                         None \<Rightarrow> (s1, Inl Uncaught)
                       | Some s2 \<Rightarrow>
                          (case find_user s2 (auth_id a) of
                             None \<Rightarrow> (s2, Inl Uncaught)
                           | Some processor \<Rightarrow>
                              (s2, Inr (Response 200
                                 [tx\<lparr>t_processorUserId := Some (auth_id a),
                                     t_redeemed := Some \<bar>t_amount tx\<bar>\<rparr>])))))))"

section \<open>POST /users/me/transactions: a redemption request\<close>

definition post_me_transactions :: "auth \<Rightarrow> jsval \<Rightarrow> jsval \<Rightarrow> string \<Rightarrow> store \<Rightarrow> outcome" where
  "post_me_transactions a type amount remark s =
     (if \<not> requireRole Regular (auth_role a) then (s, Inl (Forbidden ''Insufficient permissions''))
      else if falsy type \<or> type \<noteq> JStr ''redemption''
        then (s, Inl (BadRequest ''type must be redemption''))
      else if nullish amount then (s, Inl (BadRequest ''amount is required''))
      else case amount of
        JNum q \<Rightarrow>
          if \<not> isInteger amount \<or> q \<le> 0
            then (s, Inl (BadRequest ''amount must be a positive integer''))
          else let userId = auth_id a in
            (case find_user s userId of
               None \<Rightarrow> (s, Inl Uncaught)
             | Some usr \<Rightarrow>
                if \<not> u_verified usr then (s, Inl (Forbidden ''User must be verified''))
                else if of_int (u_points usr) < q then (s, Inl (BadRequest ''Insufficient points''))
                else (case transaction_create
                             (transaction_defaults\<lparr>t_type := Redemption, t_amount := - \<lfloor>q\<rfloor>,
                                t_remark := remark, t_ownerUserId := userId,
                                t_creatorUserId := userId\<rparr>) s of
                        None \<Rightarrow> (s, Inl Uncaught)
                      | Some (s1, t) \<Rightarrow> (s1, Inr (Response 201 [t]))))
      | _ \<Rightarrow> (s, Inl (BadRequest ''amount must be a positive integer'')))"

section \<open>POST /users/:userId/transactions: a transfer\<close>

definition post_user_transactions ::
  "auth \<Rightarrow> nat option \<Rightarrow> jsval \<Rightarrow> jsval \<Rightarrow> string \<Rightarrow> store \<Rightarrow> outcome" where
  "post_user_transactions a userId type amount remark s =
     (if \<not> requireRole Regular (auth_role a) then (s, Inl (Forbidden ''Insufficient permissions''))
      else if falsy type \<or> type \<noteq> JStr ''transfer''
        then (s, Inl (BadRequest ''type must be transfer''))
      else if nullish amount then (s, Inl (BadRequest ''amount is required''))
      else case amount of
        JNum q \<Rightarrow>
          if \<not> isInteger amount \<or> q \<le> 0
            then (s, Inl (BadRequest ''amount must be a positive integer''))
          else (case userId of
            None \<Rightarrow> (s, Inl (BadRequest ''Invalid user ID''))
          | Some recipientId \<Rightarrow>
             let senderId = auth_id a in
             if senderId = recipientId then (s, Inl (BadRequest ''Cannot transfer to yourself''))
             else (case find_user s senderId of
                None \<Rightarrow> (s, Inl Uncaught)
              | Some sender \<Rightarrow>
                 if \<not> u_verified sender then (s, Inl (Forbidden ''Sender must be verified''))
                 else if of_int (u_points sender) < q
                   then (s, Inl (BadRequest ''Insufficient points''))
                 else (case find_user s recipientId of
                    None \<Rightarrow> (s, Inl (NotFound ''Recipient not found''))
                  | Some recipient \<Rightarrow>
                     (case transaction_create
                             (transaction_defaults\<lparr>t_type := Transfer, t_amount := - \<lfloor>q\<rfloor>,
                                t_remark := remark, t_ownerUserId := senderId,
                                t_creatorUserId := senderId,
                                t_relatedUserId := Some recipientId\<rparr>) s of
                        None \<Rightarrow> (s, Inl Uncaught)
                      | Some (s1, senderTransaction) \<Rightarrow>
                         (case transaction_create
                                 (transaction_defaults\<lparr>t_type := Transfer, t_amount := \<lfloor>q\<rfloor>,
                                    t_remark := remark, t_ownerUserId := recipientId,
                                    t_creatorUserId := senderId,
                                    t_relatedUserId := Some senderId\<rparr>) s1 of
                            None \<Rightarrow> (s1, Inl Uncaught)
                          | Some (s2, recipientTransaction) \<Rightarrow>
                             (case user_update senderId (decrement_points \<lfloor>q\<rfloor>) s2 of
                                None \<Rightarrow> (s2, Inl Uncaught)
                              | Some s3 \<Rightarrow>
                                 (case user_update recipientId (increment_points \<lfloor>q\<rfloor>) s3 of
                                    None \<Rightarrow> (s3, Inl Uncaught)
                                  | Some s4 \<Rightarrow>
                                     (s4, Inr (Response 201 [senderTransaction])))))))))
      | _ \<Rightarrow> (s, Inl (BadRequest ''amount must be a positive integer'')))"

section \<open>POST /events/:eventId/transactions: an event award\<close>

text \<open>
  The loop of the broadcast form: for each guest a transaction row, then the balance
  increment.
\<close>

fun award_guests ::
  "nat \<Rightarrow> nat \<Rightarrow> int \<Rightarrow> string \<Rightarrow> nat list \<Rightarrow> store \<Rightarrow> transaction list
   \<Rightarrow> store \<times> (transaction list) option" where
  "award_guests evtId currentUserId amount remark [] s created = (s, Some created)"
| "award_guests evtId currentUserId amount remark (guest # rest) s created =
     (case transaction_create
             (transaction_defaults\<lparr>t_type := Event, t_amount := amount, t_remark := remark,
                t_ownerUserId := guest, t_creatorUserId := currentUserId,
                t_eventId := Some evtId\<rparr>) s of
        None \<Rightarrow> (s, None)
      | Some (s1, t) \<Rightarrow>
         (case user_update guest (increment_points amount) s1 of
            None \<Rightarrow> (s1, None)
          | Some s2 \<Rightarrow> award_guests evtId currentUserId amount remark rest s2 (created @ [t])))"

definition post_event_transactions ::
  "auth \<Rightarrow> nat option \<Rightarrow> jsval \<Rightarrow> jsval \<Rightarrow> jsval \<Rightarrow> string \<Rightarrow> store \<Rightarrow> outcome" where
  "post_event_transactions a eventId type utorid amount remark s =
     (case eventId of
        None \<Rightarrow> (s, Inl (BadRequest ''Invalid event ID''))
      | Some evtId \<Rightarrow>
         if falsy type \<or> type \<noteq> JStr ''event'' then (s, Inl (BadRequest ''Type must be event''))
         else if amount = JUndefined \<or> \<not> isInteger amount
                 \<or> (case amount of JNum q \<Rightarrow> q \<le> 0 | _ \<Rightarrow> False)
           then (s, Inl (BadRequest ''Amount must be a positive integer''))
         else (case amount of
           JNum q \<Rightarrow>
            (case find_event s evtId of
               None \<Rightarrow> (s, Inl (NotFound ''Event not found''))
             | Some ev \<Rightarrow>
                let isManagerOrHigher = (auth_role a = Manager \<or> auth_role a = Superuser);
                    isOrganizer = (auth_id a \<in> set (e_organizers ev))
                in if \<not> isManagerOrHigher \<and> \<not> isOrganizer
                     then (s, Inl (Forbidden ''Insufficient permissions''))
                else let pointsRemaining = e_pointsTotal ev - e_pointsAwarded ev in
                 if \<not> falsy utorid then
                   (case utorid of
                      JStr name \<Rightarrow>
                       (case find_user_by_utorid s name of
                          None \<Rightarrow> (s, Inl (NotFound ''User not found''))
                        | Some usr \<Rightarrow>
                           if u_id usr \<notin> set (e_guests ev)
                             then (s, Inl (BadRequest ''User is not a guest''))
                           else if \<lfloor>q\<rfloor> > pointsRemaining
                             then (s, Inl (BadRequest ''Insufficient points remaining''))
                           else (case transaction_create
                                        (transaction_defaults\<lparr>t_type := Event,
                                           t_amount := \<lfloor>q\<rfloor>, t_remark := remark,
                                           t_ownerUserId := u_id usr,
                                           t_creatorUserId := auth_id a,
                                           t_eventId := Some evtId\<rparr>) s of
                                   None \<Rightarrow> (s, Inl Uncaught)
                                 | Some (s1, t) \<Rightarrow>
                                    (case user_update (u_id usr) (increment_points \<lfloor>q\<rfloor>) s1 of
                                       None \<Rightarrow> (s1, Inl Uncaught)
                                     | Some s2 \<Rightarrow>
                                        (case event_update evtId
                                                (\<lambda>e. e\<lparr>e_pointsAwarded := e_pointsAwarded e + \<lfloor>q\<rfloor>\<rparr>) s2 of
                                           None \<Rightarrow> (s2, Inl Uncaught)
                                         | Some s3 \<Rightarrow> (s3, Inr (Response 201 [t]))))))
                    | _ \<Rightarrow> (s, Inl Uncaught))
                 else
                   let totalAmount = \<lfloor>q\<rfloor> * int (length (e_guests ev)) in
                   if totalAmount > pointsRemaining
                     then (s, Inl (BadRequest ''Insufficient points remaining''))
                   else (case award_guests evtId (auth_id a) \<lfloor>q\<rfloor> remark (e_guests ev) s [] of
                           (s1, None) \<Rightarrow> (s1, Inl Uncaught)
                         | (s1, Some created) \<Rightarrow>
                            (case event_update evtId
                                    (\<lambda>e. e\<lparr>e_pointsAwarded := e_pointsAwarded e + totalAmount\<rparr>) s1 of
                               None \<Rightarrow> (s1, Inl Uncaught)
                             | Some s2 \<Rightarrow> (s2, Inr (Response 201 created)))))
         | _ \<Rightarrow> (s, Inl (BadRequest ''Amount must be a positive integer''))))"

section \<open>PATCH /events/:eventId: the points block\<close>

text \<open>
  The block of the event update that reads \<open>points\<close> from the body: what it puts in
  \<open>updateData.pointsTotal\<close> (\<open>None\<close> when the body has no points), or the answer that
  ends the request. The other blocks of that handler do not touch the budget.
\<close>

definition patch_event_points :: "bool \<Rightarrow> event \<Rightarrow> jsval \<Rightarrow> error + int option" where
  "patch_event_points isManagerOrHigher ev points =
     (if nullish points then Inr None
      else if \<not> isManagerOrHigher then Inl (Forbidden ''Only managers can update points'')
      else case points of
        JNum q \<Rightarrow>
          if \<not> isInteger points \<or> q \<le> 0
            then Inl (BadRequest ''Points must be a positive integer'')
          else if \<lfloor>q\<rfloor> < e_pointsAwarded ev
            then Inl (BadRequest ''Cannot reduce points below already awarded amount'')
          else Inr (Some \<lfloor>q\<rfloor>)
      | _ \<Rightarrow> Inl (BadRequest ''Points must be a positive integer''))"

section \<open>PATCH /users/:userId: verification, suspicion and role of a user\<close>

record user_patch_body =
  pb_email :: jsval
  pb_verified :: jsval
  pb_suspicious :: jsval
  pb_role :: jsval

text \<open>The object \<open>updateData\<close>: a field is \<open>None\<close> until the handler sets it.\<close>

record updateData =
  ud_email :: "string option"
  ud_verified :: "bool option"
  ud_suspicious :: "bool option"
  ud_role :: "role option"

definition no_updateData :: updateData where
  "no_updateData = \<lparr>ud_email = None, ud_verified = None, ud_suspicious = None, ud_role = None\<rparr>"

definition apply_updateData :: "updateData \<Rightarrow> user \<Rightarrow> user" where
  "apply_updateData d u =
     u\<lparr>u_email := (case ud_email d of None \<Rightarrow> u_email u | Some e \<Rightarrow> e),
       u_verified := (case ud_verified d of None \<Rightarrow> u_verified u | Some v \<Rightarrow> v),
       u_suspicious := (case ud_suspicious d of None \<Rightarrow> u_suspicious u | Some v \<Rightarrow> v),
       u_role := (case ud_role d of None \<Rightarrow> u_role u | Some r \<Rightarrow> r)\<rparr>"

text \<open>
  The regular expression \<open>^[a-zA-Z0-9._%+-]+@(mail\.)?utoronto\.ca$\<close>: the character
  class has no \<open>@\<close>, so the local part is everything before the first \<open>@\<close>.
\<close>

definition emailRegex_test :: "string \<Rightarrow> bool" where
  "emailRegex_test e =
     (let local_part = takeWhile (\<lambda>c. c \<noteq> CHR ''@'') e;
          domain_part = dropWhile (\<lambda>c. c \<noteq> CHR ''@'') e
      in local_part \<noteq> []
         \<and> list_all (\<lambda>c. c \<in> set ''abcdefghijklmnopqrstuvwxyzABCDEFGHIJKLMNOPQRSTUVWXYZ0123456789._%+-'')
              local_part
         \<and> (domain_part = ''@utoronto.ca'' \<or> domain_part = ''@mail.utoronto.ca''))"

fun role_of_string :: "string \<Rightarrow> role option" where
  "role_of_string n =
     (if n = ''regular'' then Some Regular
      else if n = ''cashier'' then Some Cashier
      else if n = ''manager'' then Some Manager
      else if n = ''superuser'' then Some Superuser
      else None)"

definition patch_email :: "store \<Rightarrow> nat \<Rightarrow> jsval \<Rightarrow> updateData \<Rightarrow> error + updateData" where
  "patch_email s targetUserId email d =
     (if nullish email then Inr d
      else case email of
        JStr e \<Rightarrow>
          if \<not> emailRegex_test e then Inl (BadRequest ''Invalid email format'')
          else if find (\<lambda>u. u_email u = e \<and> u_id u \<noteq> targetUserId) (users s) \<noteq> None
            then Inl (BadRequest ''Email already in use'')
          else Inr (d\<lparr>ud_email := Some e\<rparr>)
      | _ \<Rightarrow> Inl (BadRequest ''Invalid email format''))"

definition patch_verified :: "jsval \<Rightarrow> updateData \<Rightarrow> error + updateData" where
  "patch_verified verified d =
     (if nullish verified then Inr d
      else if verified \<noteq> JBool True then Inl (BadRequest ''Verified must be true'')
      else Inr (d\<lparr>ud_verified := Some True\<rparr>))"

definition patch_suspicious_field :: "jsval \<Rightarrow> updateData \<Rightarrow> error + updateData" where
  "patch_suspicious_field suspicious d =
     (if nullish suspicious then Inr d
      else case suspicious of
        JBool v \<Rightarrow> Inr (d\<lparr>ud_suspicious := Some v\<rparr>)
      | _ \<Rightarrow> Inl (BadRequest ''Suspicious must be a boolean''))"

text \<open>
  The role block. A manager may name only cashier or regular; naming cashier is refused
  when \<open>willBeSuspicious\<close>, the flag the request sets or else the one the target has.
\<close>

definition patch_role ::
  "role \<Rightarrow> user \<Rightarrow> jsval \<Rightarrow> jsval \<Rightarrow> updateData \<Rightarrow> error + updateData" where
  "patch_role currentUserRole targetUser suspicious role d =
     (if nullish role then Inr d
      else case (case role of JStr n \<Rightarrow> role_of_string n | _ \<Rightarrow> None) of
        None \<Rightarrow> Inl (BadRequest ''Invalid role'')
      | Some r \<Rightarrow>
          if currentUserRole = Manager \<and> r \<noteq> Cashier \<and> r \<noteq> Regular
            then Inl (Forbidden ''Insufficient permissions'')
          else if r = Cashier then
            (let willBeSuspicious =
                   (if \<not> nullish suspicious then \<not> falsy suspicious
                    else u_suspicious targetUser)
             in if willBeSuspicious
                  then Inl (BadRequest ''Cannot promote suspicious user to cashier'')
                  else Inr (d\<lparr>ud_suspicious := Some False, ud_role := Some r\<rparr>))
          else Inr (d\<lparr>ud_role := Some r\<rparr>))"

definition patch_user :: "auth \<Rightarrow> nat option \<Rightarrow> user_patch_body \<Rightarrow> store \<Rightarrow> outcome" where
  "patch_user a userId b s =
     (if \<not> requireRole Manager (auth_role a) then (s, Inl (Forbidden ''Insufficient permissions''))
      else case userId of
        None \<Rightarrow> (s, Inl (BadRequest ''Invalid user ID''))
      | Some targetUserId \<Rightarrow>
         (case find_user s targetUserId of
            None \<Rightarrow> (s, Inl (NotFound ''User not found''))
          | Some targetUser \<Rightarrow>
             (case patch_email s targetUserId (pb_email b) no_updateData of
                Inl e \<Rightarrow> (s, Inl e)
              | Inr d1 \<Rightarrow>
             (case patch_verified (pb_verified b) d1 of
                Inl e \<Rightarrow> (s, Inl e)
              | Inr d2 \<Rightarrow>
             (case patch_suspicious_field (pb_suspicious b) d2 of
                Inl e \<Rightarrow> (s, Inl e)
              | Inr d3 \<Rightarrow>
             (case patch_role (auth_role a) targetUser (pb_suspicious b) (pb_role b) d3 of
                Inl e \<Rightarrow> (s, Inl e)
              | Inr d4 \<Rightarrow>
                 if d4 = no_updateData then (s, Inl (BadRequest ''No fields to update''))
                 else (case user_update targetUserId (apply_updateData d4) s of
                         None \<Rightarrow> (s, Inl Uncaught)
                       | Some s1 \<Rightarrow> (s1, Inr (Response 200 [])))))))))"

section \<open>Sequences of requests\<close>

datatype request =
  PostTransactions auth transaction_body int
  | PatchSuspicious auth "nat option" jsval
  | PatchProcessed auth "nat option" jsval
  | PostMeTransactions auth jsval jsval string
  | PostUserTransactions auth "nat option" jsval jsval string
  | PostEventTransactions auth "nat option" jsval jsval jsval string
  | PatchUser auth "nat option" user_patch_body

fun handle :: "request \<Rightarrow> store \<Rightarrow> outcome" where
  "handle (PostTransactions a b now) s = post_transactions a b now s"
| "handle (PatchSuspicious a i v) s = patch_suspicious a i v s"
| "handle (PatchProcessed a i v) s = patch_processed a i v s"
| "handle (PostMeTransactions a ty am r) s = post_me_transactions a ty am r s"
| "handle (PostUserTransactions a i ty am r) s = post_user_transactions a i ty am r s"
| "handle (PostEventTransactions a i ty u am r) s = post_event_transactions a i ty u am r s"
| "handle (PatchUser a i b) s = patch_user a i b s"

text \<open>The store after a sequence of requests, each served on the store the last one left.\<close>

fun serve :: "request list \<Rightarrow> store \<Rightarrow> store" where
  "serve [] s = s"
| "serve (r # rs) s = serve rs (fst (handle r s))"

definition points_of :: "store \<Rightarrow> nat \<Rightarrow> int option" where
  "points_of s i = map_option u_points (find_user s i)"

section \<open>Properties to state\<close>

text \<open>
  \<open>round(s / rate)\<close> as a JavaScript program computes it: the double quotient, rounded
  to the nearest integer; \<open>None\<close> when the quotient is not finite.
\<close>

definition rounded_quotient :: "rat \<Rightarrow> rat \<Rightarrow> int option" where
  "rounded_quotient s rate = map_option js_round (js_divide s rate)"

text \<open>
  The contribution of one promotion in the specification's words: the spend divided by
  the rate, rounded, when the promotion defines a rate, and its flat bonus when it
  defines one.
\<close>

definition contribution :: "rat \<Rightarrow> promotion \<Rightarrow> int option" where
  "contribution spent p =
     (case (case p_rate p of None \<Rightarrow> Some 0 | Some r \<Rightarrow> rounded_quotient spent r) of
        None \<Rightarrow> None
      | Some q \<Rightarrow> Some (q + (case p_points p of None \<Rightarrow> 0 | Some n \<Rightarrow> n)))"

text \<open>The sum of contributions, in the integers; \<open>None\<close> when one of them is not finite.\<close>

fun total :: "int option list \<Rightarrow> int option" where
  "total [] = Some 0"
| "total (x # xs) =
     (case x of None \<Rightarrow> None | Some a \<Rightarrow> map_option (\<lambda>b. a + b) (total xs))"

text \<open>
  An automatic promotion qualifies for a purchase when its window, both ends included,
  holds the time of the purchase and its minimum spending, if any, is reached.
\<close>

definition qualifies :: "int \<Rightarrow> rat \<Rightarrow> promotion \<Rightarrow> bool" where
  "qualifies now spent p =
     (p_type p = Automatic \<and> p_startTime p \<le> now \<and> now \<le> p_endTime p
      \<and> (case p_minSpending p of None \<Rightarrow> True | Some m \<Rightarrow> m \<le> spent))"

text \<open>
  The earned points of a purchase: base points, then the qualifying automatic
  promotions, then the requested promotions in request order.
\<close>

definition earned_points :: "store \<Rightarrow> int \<Rightarrow> rat \<Rightarrow> nat list \<Rightarrow> int option" where
  "earned_points s now spent ids =
     total (rounded_quotient spent (1 / 4)
            # map (contribution spent) (filter (qualifies now spent) (promotions s))
            @ map (contribution spent) (List.map_filter (find_promotion s) ids))"

text \<open>
  The specification gives a promotion the window from \<open>startTime\<close> up to, not
  including, \<open>endTime\<close>.
\<close>

definition qualifies_half_open :: "int \<Rightarrow> rat \<Rightarrow> promotion \<Rightarrow> bool" where
  "qualifies_half_open now spent p =
     (p_type p = Automatic \<and> p_startTime p \<le> now \<and> now < p_endTime p
      \<and> (case p_minSpending p of None \<Rightarrow> True | Some m \<Rightarrow> m \<le> spent))"

text \<open>
  Base points plus the contributions of the automatic promotions that qualify by the
  specification's window, and nothing else.
\<close>

definition base_and_automatic :: "store \<Rightarrow> int \<Rightarrow> rat \<Rightarrow> int option" where
  "base_and_automatic s now spent =
     total (rounded_quotient spent (1 / 4)
            # map (contribution spent) (filter (qualifies_half_open now spent) (promotions s)))"

text \<open>Every balance is at least zero.\<close>

definition balances_nonneg :: "store \<Rightarrow> bool" where
  "balances_nonneg s = list_all (\<lambda>u. 0 \<le> u_points u) (users s)"

text \<open>
  What POST and PATCH /promotions accept: a rate, when given, is positive, and a flat
  bonus, when given, is not negative.
\<close>

definition promotions_valid :: "store \<Rightarrow> bool" where
  "promotions_valid s =
     list_all (\<lambda>p. (case p_rate p of None \<Rightarrow> True | Some r \<Rightarrow> 0 < r)
                  \<and> (case p_points p of None \<Rightarrow> True | Some n \<Rightarrow> 0 \<le> n))
              (promotions s)"

text \<open>No event has awarded more than its budget.\<close>

definition budget_respected :: "store \<Rightarrow> bool" where
  "budget_respected s = list_all (\<lambda>e. e_pointsAwarded e \<le> e_pointsTotal e) (events s)"

text \<open>
  The requests that subtract from a balance without comparing it with the amount: an
  adjustment, the suspicious-flag toggle and the processing of a redemption.
\<close>

fun unguarded :: "request \<Rightarrow> bool" where
  "unguarded (PostTransactions a b now) = (b_type b = JStr ''adjustment'')"
| "unguarded (PatchSuspicious a i v) = True"
| "unguarded (PatchProcessed a i v) = True"
| "unguarded _ = False"

text \<open>The flag a role update would leave on the target: the one sent, else the stored one.\<close>

definition willBeSuspicious :: "user_patch_body \<Rightarrow> user \<Rightarrow> bool" where
  "willBeSuspicious b targetUser =
     (if nullish (pb_suspicious b) then u_suspicious targetUser
      else pb_suspicious b = JBool True)"

subsection \<open>A small store to run the handlers on\<close>

definition example_user :: "nat \<Rightarrow> string \<Rightarrow> role \<Rightarrow> int \<Rightarrow> bool \<Rightarrow> bool \<Rightarrow> user" where
  "example_user i n r p v sp =
     \<lparr>u_id = i, u_utorid = n, u_email = n @ ''@mail.utoronto.ca'', u_role = r,
      u_points = p, u_verified = v, u_suspicious = sp\<rparr>"

text \<open>
  Two verified members (alice with 100 points, bob with none), an honest and a
  suspicious cashier, a manager, an unverified member (eve) and a verified one with
  150 points (frank); one automatic promotion of rate 0.50, a one-time promotion alice
  has used and one nobody has; an event with 80 of its 100 points awarded; a withheld
  purchase of 600 points and a pending redemption of 120, requested while her balance
  was higher, both alice's.
\<close>

definition example_store :: store where
  "example_store =
     \<lparr>users =
        [example_user 1 ''alice'' Regular 100 True False,
         example_user 2 ''bob'' Regular 0 True False,
         example_user 3 ''carol'' Cashier 0 True False,
         example_user 4 ''dave'' Cashier 0 True True,
         example_user 5 ''mallory'' Manager 0 True False,
         example_user 6 ''eve'' Regular 150 False False,
         example_user 7 ''frank'' Regular 150 True False],
      transactions =
        [transaction_defaults\<lparr>t_id := 1, t_type := Purchase, t_amount := 600,
           t_spent := Some 100, t_suspicious := True, t_ownerUserId := 1,
           t_creatorUserId := 4, t_promotions := [1]\<rparr>,
         transaction_defaults\<lparr>t_id := 2, t_type := Redemption, t_amount := - 120,
           t_ownerUserId := 1, t_creatorUserId := 1\<rparr>],
      promotions =
        [\<lparr>p_id = 1, p_type = Automatic, p_startTime = 0, p_endTime = 1000,
          p_minSpending = None, p_rate = Some (1 / 2), p_points = None, p_usedBy = []\<rparr>,
         \<lparr>p_id = 2, p_type = Onetime, p_startTime = 0, p_endTime = 1000,
          p_minSpending = None, p_rate = None, p_points = Some 100, p_usedBy = [1]\<rparr>,
         \<lparr>p_id = 3, p_type = Onetime, p_startTime = 0, p_endTime = 1000,
          p_minSpending = None, p_rate = None, p_points = Some 50, p_usedBy = []\<rparr>],
      events =
        [\<lparr>e_id = 1, e_pointsTotal = 100, e_pointsAwarded = 80, e_organizers = [5],
          e_guests = [1, 2]\<rparr>]\<rparr>"

definition carol :: auth where
  "carol = \<lparr>auth_id = 3, auth_role = Cashier\<rparr>"

definition dave :: auth where
  "dave = \<lparr>auth_id = 4, auth_role = Cashier\<rparr>"

definition mallory :: auth where
  "mallory = \<lparr>auth_id = 5, auth_role = Manager\<rparr>"

definition alice :: auth where
  "alice = \<lparr>auth_id = 1, auth_role = Regular\<rparr>"

definition eve :: auth where
  "eve = \<lparr>auth_id = 6, auth_role = Regular\<rparr>"

definition frank :: auth where
  "frank = \<lparr>auth_id = 7, auth_role = Regular\<rparr>"

text \<open>A purchase of 100.00 for alice with no requested promotion, sent at time 10.\<close>

definition example_purchase :: transaction_body where
  "example_purchase =
     \<lparr>b_utorid = JStr ''alice'', b_type = JStr ''purchase'', b_spent = JNum 100,
      b_amount = JUndefined, b_relatedId = None, b_promotionIds = None, b_remark = []\<rparr>"

text \<open>An adjustment of minus 10 points for bob, referring to transaction 1.\<close>

definition example_adjustment :: transaction_body where
  "example_adjustment =
     \<lparr>b_utorid = JStr ''bob'', b_type = JStr ''adjustment'', b_spent = JUndefined,
      b_amount = JNum (- 10), b_relatedId = Some 1, b_promotionIds = None, b_remark = []\<rparr>"

text \<open>A user update that only names a role.\<close>

definition role_only :: "string \<Rightarrow> user_patch_body" where
  "role_only r =
     \<lparr>pb_email = JUndefined, pb_verified = JUndefined, pb_suspicious = JUndefined,
      pb_role = JStr r\<rparr>"

text \<open>
  A purchase, a transfer, a redemption request and an event award, in this order.
\<close>

definition example_requests :: "request list" where
  "example_requests =
     [PostTransactions carol example_purchase 10,
      PostUserTransactions alice (Some 2) (JStr ''transfer'') (JNum 50) [],
      PostMeTransactions frank (JStr ''redemption'') (JNum 100) [],
      PostEventTransactions mallory (Some 1) (JStr ''event'') (JStr ''alice'') (JNum 10) []]"

text \<open>
  Releasing alice's withheld purchase, her transfer of 650 points to bob, and the
  purchase being flagged again.
\<close>

definition example_release_spend_flag :: "request list" where
  "example_release_spend_flag =
     [PatchSuspicious mallory (Some 1) (JBool False),
      PostUserTransactions alice (Some 2) (JStr ''transfer'') (JNum 650) [],
      PatchSuspicious mallory (Some 1) (JBool True)]"

section \<open>Facts about double-precision arithmetic\<close>

lemma round_half_even_of_int [simp]: "round_half_even (of_int n) = n"
  by (simp add: round_half_even_def)

lemma round_half_even_nonneg: "0 \<le> x \<Longrightarrow> 0 \<le> round_half_even x"
  by (auto simp: round_half_even_def Let_def)

lemma double_of_nonneg:
  assumes "0 \<le> x" and "double_of x = Some y"
  shows "0 \<le> y"
proof (cases "x = 0")
  case True
  with assms show ?thesis by (simp add: double_of_def)
next
  case False
  define ulp :: rat where "ulp = 2 powi (max (binade \<bar>x\<bar>) (- 1022) - 52)"
  have "0 < ulp" by (simp add: ulp_def)
  with assms(1) have "0 \<le> x / ulp" by simp
  then have "0 \<le> round_half_even (x / ulp)" by (rule round_half_even_nonneg)
  with \<open>0 < ulp\<close> have "0 \<le> rat_of_int (round_half_even (x / ulp)) * ulp" by simp
  moreover from assms(2) False have "y = rat_of_int (round_half_even (x / ulp)) * ulp"
    by (auto simp: double_of_def Let_def ulp_def split: if_splits)
  ultimately show ?thesis by simp
qed

lemma binade_le:
  assumes "0 < x"
  shows "2 powi (binade x) \<le> x"
proof -
  obtain a b where ab: "quotient_of x = (a, b)" by (cases "quotient_of x")
  then have b: "0 < b" and x: "x = of_int a / of_int b"
    by (auto dest: quotient_of_denom_pos quotient_of_div)
  with assms have a: "0 < a"
    by (simp add: zero_less_divide_iff)
  define la where "la = bitlen a"
  define lb where "lb = bitlen b"
  from bitlen_bounds [OF a] have la: "2 ^ nat (la - 1) \<le> a"
    by (simp add: la_def)
  from bitlen_bounds [OF b] have lb: "b < 2 ^ nat lb"
    by (simp add: lb_def)
  have la1: "1 \<le> la"
    using a bitlen_eq_zero_iff [of a] bitlen_nonneg [of a] by (simp add: la_def)
  have lb0: "0 \<le> lb"
    by (simp add: lb_def bitlen_nonneg)
  have "(2::rat) powi (la - lb - 1) = 2 powi (la - 1) / 2 powi lb"
    using power_int_diff [of "2::rat" "la - 1" lb] by (simp add: algebra_simps)
  also have "\<dots> = 2 ^ nat (la - 1) / 2 ^ nat lb"
    using la1 lb0 by (simp add: power_int_def)
  also have "\<dots> \<le> of_int a / of_int b"
  proof (rule frac_le)
    show "(2::rat) ^ nat (la - 1) \<le> of_int a"
      using la by (metis of_int_le_iff of_int_numeral of_int_power)
    show "rat_of_int b \<le> 2 ^ nat lb"
      using lb by (metis less_imp_le of_int_le_iff of_int_numeral of_int_power)
  qed (use a b in simp_all)
  finally have low: "(2::rat) powi (la - lb - 1) \<le> x"
    by (simp add: x)
  show ?thesis
    using low ab by (simp add: binade_def Let_def la_def lb_def)
qed

lemma double_of_int_exact:
  assumes "0 \<le> n" and "n \<le> 2 ^ 53"
  shows "double_of (of_int n) = Some (of_int n)"
proof (cases "n = 0")
  case True
  then show ?thesis by (simp add: double_of_def)
next
  case False
  with assms(1) have pos: "(0::rat) < of_int n" by simp
  define e where "e = max (binade \<bar>rat_of_int n\<bar>) (- 1022)"
  have "2 powi (binade (rat_of_int n)) \<le> rat_of_int n"
    by (rule binade_le [OF pos])
  also have "\<dots> \<le> 2 powi 53"
    using assms(2) by (metis of_int_le_iff of_int_numeral of_int_power power_int_numeral)
  finally have "binade (rat_of_int n) \<le> 53"
    by (rule power_int_le_imp_le_exp [rotated]) simp_all
  with pos have e53: "e \<le> 53" and e_low: "- 1022 \<le> e"
    by (simp_all add: e_def)
  have whole: "\<exists>m. rat_of_int n / 2 powi (e - 52) = of_int m"
  proof (cases "e \<le> 52")
    case True
    then have "(2::rat) powi (e - 52) = 1 / 2 ^ nat (52 - e)"
      by (simp add: power_int_def field_simps)
    then have "rat_of_int n / 2 powi (e - 52) = of_int (n * 2 ^ nat (52 - e))"
      by simp
    then show ?thesis by blast
  next
    case False
    with e53 have e: "e = 53" by simp
    then have "binade (rat_of_int n) = 53"
      using pos by (simp add: e_def max_def split: if_splits)
    with binade_le [OF pos] have "(2::rat) powi 53 \<le> of_int n" by simp
    then have "(2::int) ^ 53 \<le> n"
      by (metis of_int_le_iff of_int_numeral of_int_power power_int_numeral)
    with assms(2) have "n = 2 ^ 53" by simp
    then have "rat_of_int n / 2 powi (e - 52) = of_int (2 ^ 52)"
      using e by simp
    then show ?thesis by blast
  qed
  then obtain m where m: "rat_of_int n / 2 powi (e - 52) = of_int m" by blast
  have undo: "rat_of_int m * 2 powi (e - 52) = of_int n"
    using m by (simp add: field_simps)
  have "\<bar>rat_of_int n\<bar> < 2 powi 1024"
  proof -
    have "\<bar>rat_of_int n\<bar> \<le> 2 ^ 53"
      using assms by (metis abs_of_nonneg of_int_0_le_iff of_int_le_iff of_int_numeral of_int_power)
    also have "\<dots> < (2::rat) powi 1024" by simp
    finally show ?thesis .
  qed
  with False m undo show ?thesis
    by (simp add: double_of_def Let_def e_def [symmetric])
qed

section \<open>Facts about the store's commands\<close>

lemma floor_rat_numeral [simp]: "\<lfloor>(numeral a :: rat) / numeral b\<rfloor> = numeral a div numeral b"
  using floor_divide_of_int_eq [of "numeral a" "numeral b", where ?'a = rat] by simp

lemma update_first_None: "update_first P f xs = None \<longleftrightarrow> find P xs = None"
  by (induction xs) auto

lemma update_first_Some_find:
  "update_first P f xs = Some ys \<Longrightarrow> \<exists>x. find P xs = Some x \<and> set ys \<subseteq> insert (f x) (set xs)"
proof (induction xs arbitrary: ys)
  case Nil
  then show ?case by simp
next
  case (Cons a xs)
  show ?case
  proof (cases "P a")
    case True
    with Cons.prems show ?thesis by auto
  next
    case False
    with Cons.prems obtain zs where zs: "update_first P f xs = Some zs" "ys = a # zs"
      by auto
    from Cons.IH [OF zs(1)] zs(2) False show ?thesis by auto
  qed
qed

lemma find_update_first:
  assumes "update_first (\<lambda>x. k x = i) f xs = Some ys" and "\<And>x. k (f x) = k x"
  shows "find (\<lambda>x. k x = j) ys
         = (if j = i then map_option f (find (\<lambda>x. k x = i) xs) else find (\<lambda>x. k x = j) xs)"
  using assms(1)
proof (induction xs arbitrary: ys)
  case Nil
  then show ?case by simp
next
  case (Cons a xs)
  show ?case
  proof (cases "k a = i")
    case True
    with Cons.prems assms(2) show ?thesis by auto
  next
    case False
    with Cons.prems obtain zs where zs: "update_first (\<lambda>x. k x = i) f xs = Some zs" "ys = a # zs"
      by auto
    from Cons.IH [OF zs(1)] zs(2) False show ?thesis by auto
  qed
qed

lemma map_update_first:
  "update_first P f xs = Some ys \<Longrightarrow> (\<And>x. g (f x) = g x) \<Longrightarrow> map g ys = map g xs"
  by (induction xs arbitrary: ys) (auto split: if_splits)

lemma find_Some_mem: "find P xs = Some x \<Longrightarrow> x \<in> set xs \<and> P x"
  by (induction xs) (auto split: if_splits)

lemma transaction_create_Some:
  "transaction_create d s = Some (s', t) \<Longrightarrow>
     t = d\<lparr>t_id := next_transaction_id s, t_promotions := remdups (t_promotions d)\<rparr>
     \<and> s' = s\<lparr>transactions := transactions s @ [t]\<rparr>"
  by (auto simp: transaction_create_def Let_def split: if_splits)

lemma transaction_create_ok:
  "find_user s (t_ownerUserId d) \<noteq> None \<Longrightarrow> find_user s (t_creatorUserId d) \<noteq> None \<Longrightarrow>
   t_promotions d = [] \<Longrightarrow>
   transaction_create d s
     = Some (s\<lparr>transactions := transactions s @ [d\<lparr>t_id := next_transaction_id s\<rparr>]\<rparr>,
             d\<lparr>t_id := next_transaction_id s\<rparr>)"
proof -
  assume a: "find_user s (t_ownerUserId d) \<noteq> None" "find_user s (t_creatorUserId d) \<noteq> None"
    and e: "t_promotions d = []"
  have "d\<lparr>t_id := next_transaction_id s, t_promotions := remdups (t_promotions d)\<rparr>
          = d\<lparr>t_id := next_transaction_id s\<rparr>"
    using e by (cases d) simp
  with a e show ?thesis
    by (simp add: transaction_create_def Let_def)
qed

lemma find_user_transactions_update [simp]:
  "find_user (s\<lparr>transactions := ts\<rparr>) i = find_user s i"
  by (simp add: find_user_def)

lemma user_update_Some:
  "user_update i f s = Some s' \<Longrightarrow>
     \<exists>u us. find_user s i = Some u \<and> s' = s\<lparr>users := us\<rparr> \<and> set us \<subseteq> insert (f u) (set (users s))"
  unfolding user_update_def find_user_def
  by (auto dest!: update_first_Some_find)

lemma user_update_ok:
  "find_user s i = Some u \<Longrightarrow> \<exists>s'. user_update i f s = Some s'"
  unfolding user_update_def find_user_def
  by (cases "update_first (\<lambda>u. u_id u = i) f (users s)") (auto simp: update_first_None)

lemma find_user_user_update:
  assumes "user_update i f s = Some s'" and "\<And>u. u_id (f u) = u_id u"
  shows "find_user s' j = (if j = i then map_option f (find_user s i) else find_user s j)"
  using assms(1) find_update_first [of u_id i f "users s" _ j, OF _ assms(2)]
  unfolding user_update_def find_user_def by auto

lemma update_first_ok:
  "find P xs = Some x \<Longrightarrow> \<exists>ys. update_first P f xs = Some ys"
  by (cases "update_first P f xs") (auto simp: update_first_None)

lemma transaction_update_ok:
  assumes "find_transaction s i = Some tx" and "\<And>t. t_id (f t) = t_id t"
  shows "\<exists>s'. transaction_update i f s = Some s' \<and> users s' = users s
           \<and> promotions s' = promotions s \<and> events s' = events s
           \<and> find_transaction s' i = Some (f tx)"
proof -
  from assms(1) obtain ts where ts: "update_first (\<lambda>t. t_id t = i) f (transactions s) = Some ts"
    unfolding find_transaction_def by (blast dest: update_first_ok)
  from find_update_first [of t_id i f "transactions s" ts i, OF ts assms(2)] assms(1)
  have "find (\<lambda>t. t_id t = i) ts = Some (f tx)"
    by (simp add: find_transaction_def)
  with ts show ?thesis
    by (simp add: transaction_update_def find_transaction_def)
qed

lemma user_update_points:
  assumes "find_user s i = Some u" and "\<And>u. u_id (f u) = u_id u"
  shows "\<exists>s'. user_update i f s = Some s' \<and> transactions s' = transactions s
           \<and> promotions s' = promotions s \<and> events s' = events s
           \<and> (\<forall>j. find_user s' j = (if j = i then Some (f u) else find_user s j))"
proof -
  from user_update_ok [OF assms(1)] obtain s' where s': "user_update i f s = Some s'"
    by blast
  from find_user_user_update [OF s' assms(2)] assms(1)
  have "\<forall>j. find_user s' j = (if j = i then Some (f u) else find_user s j)"
    by simp
  moreover from s' have "transactions s' = transactions s \<and> promotions s' = promotions s
      \<and> events s' = events s"
    by (auto simp: user_update_def)
  ultimately show ?thesis using s' by blast
qed

lemma find_user_cong: "users s' = users s \<Longrightarrow> find_user s' i = find_user s i"
  by (simp add: find_user_def)

lemma find_transaction_cong:
  "transactions s' = transactions s \<Longrightarrow> find_transaction s' i = find_transaction s i"
  by (simp add: find_transaction_def)

lemma u_id_decrement [simp]: "u_id (decrement_points n u) = u_id u"
  by (simp add: decrement_points_def)

lemma u_id_increment [simp]: "u_id (increment_points n u) = u_id u"
  by (simp add: increment_points_def)

lemma find_key_mem: "x \<in> set xs \<Longrightarrow> find (\<lambda>y. k y = k x) xs \<noteq> None"
  by (induction xs) auto

lemma p_id_connect_usedBy [simp]: "p_id (connect_usedBy uid p) = p_id p"
  by (simp add: connect_usedBy_def)

lemma promotion_update_ok:
  assumes "find_promotion s i \<noteq> None" and "\<And>p. p_id (f p) = p_id p"
  shows "\<exists>s'. promotion_update i f s = Some s' \<and> users s' = users s
           \<and> transactions s' = transactions s \<and> events s' = events s
           \<and> (\<forall>j. find_promotion s j \<noteq> None \<longrightarrow> find_promotion s' j \<noteq> None)"
proof -
  from assms(1) obtain ps where ps: "update_first (\<lambda>p. p_id p = i) f (promotions s) = Some ps"
    unfolding find_promotion_def by (auto dest: update_first_ok)
  have "\<forall>j. find_promotion s j \<noteq> None \<longrightarrow> find (\<lambda>p. p_id p = j) ps \<noteq> None"
    using find_update_first [of p_id i f "promotions s" ps, OF ps assms(2)]
    by (auto simp: find_promotion_def)
  with ps show ?thesis
    by (simp add: promotion_update_def find_promotion_def)
qed

lemma connect_owner_ok:
  "\<forall>p \<in> set ps. find_promotion s (p_id p) \<noteq> None \<Longrightarrow>
   \<exists>s'. connect_owner uid ps s = Some s' \<and> users s' = users s
        \<and> transactions s' = transactions s \<and> events s' = events s"
proof (induction ps arbitrary: s)
  case Nil
  then show ?case by simp
next
  case (Cons p ps)
  from Cons.prems have "find_promotion s (p_id p) \<noteq> None" by simp
  from promotion_update_ok [OF this, of "connect_usedBy uid"]
  obtain s1 where s1: "promotion_update (p_id p) (connect_usedBy uid) s = Some s1"
      "users s1 = users s" "transactions s1 = transactions s" "events s1 = events s"
      "\<forall>j. find_promotion s j \<noteq> None \<longrightarrow> find_promotion s1 j \<noteq> None"
    by auto
  from Cons.prems s1(5) have "\<forall>q \<in> set ps. find_promotion s1 (p_id q) \<noteq> None" by simp
  from Cons.IH [OF this] s1 show ?case by auto
qed

lemma onetime_promotions_found:
  "\<forall>p \<in> set (filter Q (promotions s)). find_promotion s (p_id p) \<noteq> None"
  by (auto simp: find_promotion_def dest: find_key_mem [of _ _ p_id])

text \<open>What one toggle does to the row and to the user table.\<close>

lemma patch_suspicious_effect:
  assumes role: "requireRole Manager (auth_role a)"
    and tx: "find_transaction s i = Some tx"
    and owner: "find_user s (t_ownerUserId tx) = Some owner"
  shows "\<exists>s'. patch_suspicious a (Some i) (JBool v) s
            = (s', Inr (Response 200 [tx\<lparr>t_suspicious := v\<rparr>]))
          \<and> find_transaction s' i = Some (tx\<lparr>t_suspicious := v\<rparr>)
          \<and> (\<forall>j. find_user s' j
                 = (if j = t_ownerUserId tx
                    then Some (owner\<lparr>u_points := u_points owner
                                 + (if t_suspicious tx \<and> \<not> v then t_amount tx
                                    else if \<not> t_suspicious tx \<and> v then - t_amount tx
                                    else 0)\<rparr>)
                    else find_user s j))"
proof -
  let ?f = "\<lambda>t. t\<lparr>t_suspicious := v\<rparr>"
  from transaction_update_ok [OF tx, of ?f]
  obtain s1 where s1: "transaction_update i ?f s = Some s1" "users s1 = users s"
      "find_transaction s1 i = Some (?f tx)"
    by auto
  from owner s1(2) have owner1: "find_user s1 (t_ownerUserId tx) = Some owner"
    by (simp add: find_user_def)
  have same: "\<forall>j. find_user s1 j = find_user s j"
    using s1(2) by (simp add: find_user_def)
  consider (release) "t_suspicious tx \<and> \<not> v" | (withhold) "\<not> t_suspicious tx \<and> v"
    | (same) "t_suspicious tx = v"
    by blast
  then show ?thesis
  proof cases
    case release
    from user_update_points [OF owner1, of "increment_points (t_amount tx)"]
    obtain s2 where s2: "user_update (t_ownerUserId tx) (increment_points (t_amount tx)) s1 = Some s2"
        "transactions s2 = transactions s1"
        "\<forall>j. find_user s2 j
             = (if j = t_ownerUserId tx then Some (increment_points (t_amount tx) owner)
                else find_user s1 j)"
      by auto
    let ?ps = "filter (\<lambda>p. p_id p \<in> set (t_promotions tx) \<and> p_type p = Onetime) (promotions s2)"
    have "\<forall>p \<in> set ?ps. find_promotion s2 (p_id p) \<noteq> None"
      by (rule onetime_promotions_found)
    from connect_owner_ok [OF this, of "t_ownerUserId tx"]
    obtain s3 where s3: "connect_owner (t_ownerUserId tx) ?ps s2 = Some s3"
        "users s3 = users s2" "transactions s3 = transactions s2"
      by blast
    have "patch_suspicious a (Some i) (JBool v) s = (s3, Inr (Response 200 [?f tx]))"
      using role tx release s1(1) s2(1) s3(1)
      by (simp add: patch_suspicious_def nullish_def Let_def)
    moreover have "find_transaction s3 i = Some (?f tx)"
      using s1(3) s2(2) s3(3) by (simp add: find_transaction_def)
    moreover have "\<forall>j. find_user s3 j
             = (if j = t_ownerUserId tx then Some (owner\<lparr>u_points := u_points owner + t_amount tx\<rparr>)
                else find_user s j)"
      using s2(3) s3(2) same by (simp add: find_user_def increment_points_def)
    ultimately show ?thesis using release by auto
  next
    case withhold
    from user_update_points [OF owner1, of "decrement_points (t_amount tx)"]
    obtain s2 where s2: "user_update (t_ownerUserId tx) (decrement_points (t_amount tx)) s1 = Some s2"
        "transactions s2 = transactions s1"
        "\<forall>j. find_user s2 j
             = (if j = t_ownerUserId tx then Some (decrement_points (t_amount tx) owner)
                else find_user s1 j)"
      by auto
    have "patch_suspicious a (Some i) (JBool v) s = (s2, Inr (Response 200 [?f tx]))"
      using role tx withhold s1(1) s2(1)
      by (simp add: patch_suspicious_def nullish_def Let_def)
    moreover have "find_transaction s2 i = Some (?f tx)"
      using s1(3) s2(2) by (simp add: find_transaction_def)
    moreover have "\<forall>j. find_user s2 j
             = (if j = t_ownerUserId tx then Some (owner\<lparr>u_points := u_points owner - t_amount tx\<rparr>)
                else find_user s j)"
      using s2(3) same by (simp add: decrement_points_def)
    ultimately show ?thesis using withhold by auto
  next
    case same
    have "patch_suspicious a (Some i) (JBool v) s = (s1, Inr (Response 200 [?f tx]))"
      using role tx same s1(1)
      by (auto simp: patch_suspicious_def nullish_def Let_def)
    moreover have "\<forall>j. find_user s1 j
             = (if j = t_ownerUserId tx then Some (owner\<lparr>u_points := u_points owner + 0\<rparr>)
                else find_user s j)"
      using \<open>\<forall>j. find_user s1 j = find_user s j\<close> owner by simp
    ultimately show ?thesis using same s1(3) by auto
  qed
qed

lemma requireRole_Regular [simp]: "requireRole Regular r"
  by (cases r) (simp_all add: requireRole_def)

lemma isInteger_of_int [simp]: "isInteger (JNum (of_int n))"
  by simp

lemma transaction_create_events:
  "transaction_create d s = Some (s', t) \<Longrightarrow> events s' = events s \<and> users s' = users s
      \<and> promotions s' = promotions s"
  by (auto dest: transaction_create_Some)

lemma user_update_events:
  "user_update i f s = Some s' \<Longrightarrow> events s' = events s \<and> promotions s' = promotions s
      \<and> transactions s' = transactions s"
  by (auto simp: user_update_def)

lemma award_guests_events:
  "events (fst (award_guests evtId cur amount remark guests s created)) = events s"
proof (induction guests arbitrary: s created)
  case Nil
  then show ?case by simp
next
  case (Cons g guests)
  show ?case
  proof (cases "transaction_create
             (transaction_defaults\<lparr>t_type := Event, t_amount := amount, t_remark := remark,
                t_ownerUserId := g, t_creatorUserId := cur, t_eventId := Some evtId\<rparr>) s")
    case None
    then show ?thesis by simp
  next
    case (Some p)
    obtain s1 t where p: "p = (s1, t)" by (cases p)
    from Some p have e1: "events s1 = events s"
      by (auto dest: transaction_create_events)
    show ?thesis
    proof (cases "user_update g (increment_points amount) s1")
      case None
      with Some p e1 show ?thesis by simp
    next
      case (Some s2)
      then have "events s2 = events s1" by (auto dest: user_update_events)
      with Some \<open>transaction_create _ s = Some p\<close> p e1 Cons.IH [of s2 "created @ [t]"]
      show ?thesis by simp
    qed
  qed
qed

lemma award_guests_events_eq:
  "award_guests evtId cur amount remark guests s created = (s', res) \<Longrightarrow> events s' = events s"
  using award_guests_events [of evtId cur amount remark guests s created] by simp

text \<open>What a request for an event award leaves in the event table.\<close>

lemma post_event_transactions_events:
  "events (fst (post_event_transactions a eventId type utorid amount remark s)) = events s
   \<or> (\<exists>evtId ev total es.
         eventId = Some evtId \<and> find_event s evtId = Some ev
       \<and> total \<le> e_pointsTotal ev - e_pointsAwarded ev
       \<and> update_first (\<lambda>e. e_id e = evtId)
            (\<lambda>e. e\<lparr>e_pointsAwarded := e_pointsAwarded e + total\<rparr>) (events s) = Some es
       \<and> events (fst (post_event_transactions a eventId type utorid amount remark s)) = es)"
  apply (cases "post_event_transactions a eventId type utorid amount remark s")
  apply (auto simp: post_event_transactions_def Let_def event_update_def
      split: option.splits if_splits jsval.splits prod.splits
      dest!: transaction_create_events user_update_events award_guests_events_eq)
  done

lemma post_event_transactions_budget:
  assumes "budget_respected s"
  shows "budget_respected (fst (post_event_transactions a eventId type utorid amount remark s))"
proof -
  let ?s' = "fst (post_event_transactions a eventId type utorid amount remark s)"
  from post_event_transactions_events [of a eventId type utorid amount remark s]
  consider (same) "events ?s' = events s"
    | (awarded) evtId ev total es where "find_event s evtId = Some ev"
        "total \<le> e_pointsTotal ev - e_pointsAwarded ev"
        "update_first (\<lambda>e. e_id e = evtId)
            (\<lambda>e. e\<lparr>e_pointsAwarded := e_pointsAwarded e + total\<rparr>) (events s) = Some es"
        "events ?s' = es"
    by blast
  then show ?thesis
  proof cases
    case same
    with assms show ?thesis by (simp add: budget_respected_def)
  next
    case awarded
    from update_first_Some_find [OF awarded(3)] awarded(1)
    have "set es \<subseteq> insert (ev\<lparr>e_pointsAwarded := e_pointsAwarded ev + total\<rparr>) (set (events s))"
      by (simp add: find_event_def)
    with assms awarded(2,4) show ?thesis
      by (auto simp: budget_respected_def list_all_iff)
  qed
qed


lemma patch_role_manager_refuses:
  "r = ''manager'' \<or> r = ''superuser'' \<Longrightarrow>
   patch_role Manager target susp (JStr r) d = Inl (Forbidden ''Insufficient permissions'')"
  by (auto simp: patch_role_def nullish_def)

lemma patch_role_cashier_refuses:
  assumes "\<not> nullish susp \<longrightarrow> (\<exists>v. susp = JBool v)"
    and "if nullish susp then u_suspicious target else susp = JBool True"
  shows "patch_role cur target susp (JStr ''cashier'') d
           = Inl (BadRequest ''Cannot promote suspicious user to cashier'')"
  using assms by (auto simp: patch_role_def nullish_def Let_def split: if_splits)

lemma patch_suspicious_field_Inr:
  "patch_suspicious_field susp d = Inr d' \<Longrightarrow> \<not> nullish susp \<longrightarrow> (\<exists>v. susp = JBool v)"
  by (cases susp) (auto simp: patch_suspicious_field_def nullish_def)

lemma patch_role_Inr:
  assumes "patch_role Manager target susp role d = Inr d'"
    and "\<not> nullish susp \<longrightarrow> (\<exists>v. susp = JBool v)"
  shows "(nullish role \<and> d' = d)
       \<or> (role = JStr ''cashier'' \<and> d' = d\<lparr>ud_suspicious := Some False, ud_role := Some Cashier\<rparr>
            \<and> \<not> (if nullish susp then u_suspicious target else susp = JBool True))
       \<or> (role = JStr ''regular'' \<and> d' = d\<lparr>ud_role := Some Regular\<rparr>)"
proof (cases "nullish role")
  case True
  with assms(1) show ?thesis by (simp add: patch_role_def)
next
  case False
  with assms(1) obtain n where n: "role = JStr n"
    by (cases role) (auto simp: patch_role_def nullish_def)
  with assms False show ?thesis
    by (auto simp: patch_role_def nullish_def Let_def split: if_splits)
qed


lemma patch_email_role: "patch_email s i email d = Inr d' \<Longrightarrow> ud_role d' = ud_role d"
  by (cases email) (auto simp: patch_email_def nullish_def split: if_splits)

lemma patch_verified_role: "patch_verified v d = Inr d' \<Longrightarrow> ud_role d' = ud_role d"
  by (auto simp: patch_verified_def split: if_splits)

lemma patch_suspicious_field_role:
  "patch_suspicious_field v d = Inr d' \<Longrightarrow> ud_role d' = ud_role d"
  by (cases v) (auto simp: patch_suspicious_field_def nullish_def split: if_splits)

lemma u_id_apply_updateData [simp]: "u_id (apply_updateData d u) = u_id u"
  by (simp add: apply_updateData_def)

lemma patch_user_nullish_fields:
  "nullish (pb_email b) \<Longrightarrow> nullish (pb_verified b) \<Longrightarrow> nullish (pb_suspicious b) \<Longrightarrow>
   patch_email s i (pb_email b) d = Inr d \<and> patch_verified (pb_verified b) d = Inr d
   \<and> patch_suspicious_field (pb_suspicious b) d = Inr d"
  by (simp add: patch_email_def patch_verified_def patch_suspicious_field_def)

lemmas example_defs =
  example_store_def example_user_def transaction_defaults_def example_purchase_def
  example_adjustment_def role_only_def carol_def dave_def mallory_def alice_def eve_def frank_def
  find_user_def find_user_by_utorid_def find_transaction_def find_promotion_def
  find_event_def points_of_def


section \<open>Redemption processing\<close>

text \<open>
  C10. Processing a redemption compares nothing with the owner's balance. For every
  transaction of type redemption with no processor, the request of an actor who is at
  least a cashier succeeds: the row gets the actor as processor and
  \<open>redeemed = |amount|\<close>, and the owner's balance goes down by \<open>|amount|\<close>, whatever
  the balance was (the owner and the actor being rows of the user table, as the
  references of the transaction and of the token are).
\<close>

theorem processing_has_no_balance_check:
assumes role: "requireRole Cashier (auth_role a)"
    and tx: "find_transaction s i = Some tx"
    and red: "t_type tx = Redemption" "t_processorUserId tx = None"
    and owner: "find_user s (t_ownerUserId tx) = Some owner"
    and actor: "find_user s (auth_id a) = Some actor"
  shows "\<exists>s'. patch_processed a (Some i) (JBool True) s
            = (s', Inr (Response 200 [tx\<lparr>t_processorUserId := Some (auth_id a),
                                         t_redeemed := Some \<bar>t_amount tx\<bar>\<rparr>]))
          \<and> find_transaction s' i
              = Some (tx\<lparr>t_processorUserId := Some (auth_id a),
                        t_redeemed := Some \<bar>t_amount tx\<bar>\<rparr>)
          \<and> points_of s' (t_ownerUserId tx) = Some (u_points owner - \<bar>t_amount tx\<bar>)"
proof -
  let ?f = "\<lambda>t. t\<lparr>t_processorUserId := Some (auth_id a), t_redeemed := Some \<bar>t_amount tx\<bar>\<rparr>"
  from transaction_update_ok [OF tx, of ?f]
  obtain s1 where s1: "transaction_update i ?f s = Some s1" "users s1 = users s"
      "find_transaction s1 i = Some (?f tx)"
    by auto
  from owner s1(2) have owner1: "find_user s1 (t_ownerUserId tx) = Some owner"
    by (simp add: find_user_def)
  from user_update_points [OF owner1, of "decrement_points \<bar>t_amount tx\<bar>"]
  obtain s2 where s2: "user_update (t_ownerUserId tx) (decrement_points \<bar>t_amount tx\<bar>) s1 = Some s2"
      "transactions s2 = transactions s1"
      "\<forall>j. find_user s2 j = (if j = t_ownerUserId tx then Some (decrement_points \<bar>t_amount tx\<bar> owner)
                               else find_user s1 j)"
    by auto
  from s2(3) actor s1(2) have actor2: "find_user s2 (auth_id a) \<noteq> None"
    by (simp add: find_user_def)
  have out: "patch_processed a (Some i) (JBool True) s = (s2, Inr (Response 200 [?f tx]))"
    using role tx red s1(1) s2(1) actor2
    by (auto simp: patch_processed_def split: option.splits)
  have "find_transaction s2 i = Some (?f tx)"
    using s1(3) s2(2) by (simp add: find_transaction_def)
  moreover have "points_of s2 (t_ownerUserId tx) = Some (u_points owner - \<bar>t_amount tx\<bar>)"
    using s2(3) by (simp add: points_of_def decrement_points_def)
  ultimately show ?thesis using out by blast
qed

text \<open>
  On the example store carol processes alice's pending redemption of 120 against a
  balance of 100: the request succeeds and the balance is 20 below zero.
\<close>

theorem processing_has_no_balance_check_witness:
  "requireRole Cashier (auth_role carol)
   \<and> points_of example_store 1 = Some 100
   \<and> (\<exists>s' t. patch_processed carol (Some 2) (JBool True) example_store
                 = (s', Inr (Response 200 [t]))
          \<and> find_transaction s' 2 = Some t \<and> t_processorUserId t = Some 3
          \<and> t_redeemed t = Some 120 \<and> t_amount t = - 120
          \<and> points_of s' 1 = Some (- 20))"
proof -
  let ?tx = "transaction_defaults\<lparr>t_id := 2, t_type := Redemption, t_amount := - 120,
               t_ownerUserId := 1, t_creatorUserId := 1\<rparr>"
  have role: "requireRole Cashier (auth_role carol)"
    by (simp add: requireRole_def carol_def)
  have tx: "find_transaction example_store 2 = Some ?tx"
    by (simp add: example_defs)
  have red: "t_type ?tx = Redemption" "t_processorUserId ?tx = None"
    by (simp_all add: transaction_defaults_def)
  have owner: "find_user example_store (t_ownerUserId ?tx)
                 = Some (example_user 1 ''alice'' Regular 100 True False)"
    by (simp add: example_defs)
  have actor: "find_user example_store (auth_id carol)
                 = Some (example_user 3 ''carol'' Cashier 0 True False)"
    by (simp add: example_defs)
  have bal: "points_of example_store 1 = Some 100"
    by (simp add: example_defs)
  from processing_has_no_balance_check [OF role tx red owner actor] role bal
  show ?thesis
    by (auto simp: transaction_defaults_def example_user_def carol_def)
qed

section \<open>The suspicious-flag toggle\<close>

text \<open>
  C3, as the code has it. The toggle does not look at the type of the transaction. For
  every existing transaction, purchase or not, whose owner is a row of the user table,
  the request of a manager or superuser carrying a boolean succeeds: the row then
  carries the new flag, and the owner's balance changes by \<open>+amount\<close> when the flag
  goes from true to false, by \<open>-amount\<close> when it goes from false to true, and not at
  all when the flag keeps its value.
\<close>

theorem suspicious_toggle_any_type:
  assumes role: "requireRole Manager (auth_role a)"
    and tx: "find_transaction s i = Some tx"
    and owner: "find_user s (t_ownerUserId tx) = Some owner"
  shows "\<exists>s'. patch_suspicious a (Some i) (JBool v) s
            = (s', Inr (Response 200 [tx\<lparr>t_suspicious := v\<rparr>]))
          \<and> find_transaction s' i = Some (tx\<lparr>t_suspicious := v\<rparr>)
          \<and> points_of s' (t_ownerUserId tx)
              = Some (u_points owner
                      + (if t_suspicious tx \<and> \<not> v then t_amount tx
                         else if \<not> t_suspicious tx \<and> v then - t_amount tx
                         else 0))"
proof -
  from patch_suspicious_effect [OF role tx owner, of v]
  obtain s' where s': "patch_suspicious a (Some i) (JBool v) s
        = (s', Inr (Response 200 [tx\<lparr>t_suspicious := v\<rparr>]))"
      "find_transaction s' i = Some (tx\<lparr>t_suspicious := v\<rparr>)"
      "\<forall>j. find_user s' j
           = (if j = t_ownerUserId tx
              then Some (owner\<lparr>u_points := u_points owner
                           + (if t_suspicious tx \<and> \<not> v then t_amount tx
                              else if \<not> t_suspicious tx \<and> v then - t_amount tx
                              else 0)\<rparr>)
              else find_user s j)"
    by blast
  from s'(3) have "points_of s' (t_ownerUserId tx)
      = Some (u_points owner
              + (if t_suspicious tx \<and> \<not> v then t_amount tx
                 else if \<not> t_suspicious tx \<and> v then - t_amount tx
                 else 0))"
    by (simp add: points_of_def)
  with s'(1,2) show ?thesis by blast
qed

text \<open>
  On the example store the manager flags alice's pending redemption (amount -120): the
  request succeeds and her balance goes from 100 to 220.
\<close>

theorem suspicious_toggle_any_type_witness:
  "requireRole Manager (auth_role mallory)
   \<and> map_option t_type (find_transaction example_store 2) = Some Redemption
   \<and> map_option t_suspicious (find_transaction example_store 2) = Some False
   \<and> map_option t_amount (find_transaction example_store 2) = Some (- 120)
   \<and> points_of example_store 1 = Some 100
   \<and> (\<exists>s' t. patch_suspicious mallory (Some 2) (JBool True) example_store
                 = (s', Inr (Response 200 [t]))
          \<and> find_transaction s' 2 = Some t \<and> t_suspicious t
          \<and> points_of s' 1 = Some 220)"
proof -
  let ?tx = "transaction_defaults\<lparr>t_id := 2, t_type := Redemption, t_amount := - 120,
               t_ownerUserId := 1, t_creatorUserId := 1\<rparr>"
  have role: "requireRole Manager (auth_role mallory)"
    by (simp add: requireRole_def mallory_def)
  have tx: "find_transaction example_store 2 = Some ?tx"
    by (simp add: example_defs)
  have owner: "find_user example_store (t_ownerUserId ?tx)
                 = Some (example_user 1 ''alice'' Regular 100 True False)"
    by (simp add: example_defs)
  have bal: "points_of example_store 1 = Some 100"
    by (simp add: example_defs)
  from suspicious_toggle_any_type [OF role tx owner, of True] role tx bal
  show ?thesis
    by (auto simp: example_user_def transaction_defaults_def)
qed

text \<open>
  The claim that the toggle fails on a transaction that is not a purchase, evaluated on
  the same request: the answer is 200, the flag is stored and the balance has changed.
\<close>

theorem toggle_not_restricted_to_purchases:
  "map_option t_type (find_transaction example_store 2) = Some Redemption
   \<and> points_of example_store 1 = Some 100
   \<and> snd (patch_suspicious mallory (Some 2) (JBool True) example_store)
       = Inr (Response 200
               [transaction_defaults\<lparr>t_id := 2, t_type := Redemption, t_amount := - 120,
                  t_suspicious := True, t_ownerUserId := 1, t_creatorUserId := 1\<rparr>])
   \<and> map_option t_suspicious
        (find_transaction (fst (patch_suspicious mallory (Some 2) (JBool True) example_store)) 2)
       = Some True
   \<and> points_of (fst (patch_suspicious mallory (Some 2) (JBool True) example_store)) 1
       = Some 220"
  by (simp add: example_defs patch_suspicious_def transaction_update_def user_update_def
      requireRole_def nullish_def decrement_points_def)

text \<open>
  C4. For every purchase transaction flagged suspicious with amount \<open>a\<close>, releasing it
  (true to false) and flagging it again (false to true) both succeed; in between the
  owner's balance is \<open>a\<close> higher, afterwards every balance is what it was before the
  two toggles, and the stored amount is \<open>a\<close> after each of them.
\<close>

theorem suspicious_round_trip:
  assumes role: "requireRole Manager (auth_role a)"
    and tx: "find_transaction s i = Some tx"
    and purchase: "t_type tx = Purchase"
    and flagged: "t_suspicious tx"
    and owner: "find_user s (t_ownerUserId tx) = Some owner"
  shows "\<exists>s1 s2 r1 r2.
           patch_suspicious a (Some i) (JBool False) s = (s1, Inr r1)
         \<and> patch_suspicious a (Some i) (JBool True) s1 = (s2, Inr r2)
         \<and> points_of s1 (t_ownerUserId tx) = Some (u_points owner + t_amount tx)
         \<and> (\<forall>j. points_of s2 j = points_of s j)
         \<and> map_option t_amount (find_transaction s1 i) = Some (t_amount tx)
         \<and> map_option t_amount (find_transaction s2 i) = Some (t_amount tx)"
proof -
  let ?tx1 = "tx\<lparr>t_suspicious := False\<rparr>"
  let ?owner1 = "owner\<lparr>u_points := u_points owner + t_amount tx\<rparr>"
  from patch_suspicious_effect [OF role tx owner, of False] flagged
  obtain s1 where s1: "patch_suspicious a (Some i) (JBool False) s
        = (s1, Inr (Response 200 [?tx1]))"
      "find_transaction s1 i = Some ?tx1"
      "\<forall>j. find_user s1 j = (if j = t_ownerUserId tx then Some ?owner1 else find_user s j)"
    by auto
  have owner1: "find_user s1 (t_ownerUserId ?tx1) = Some ?owner1"
    using s1(3) by simp
  from patch_suspicious_effect [OF role s1(2) owner1, of True]
  obtain s2 where s2: "patch_suspicious a (Some i) (JBool True) s1
        = (s2, Inr (Response 200 [?tx1\<lparr>t_suspicious := True\<rparr>]))"
      "find_transaction s2 i = Some (?tx1\<lparr>t_suspicious := True\<rparr>)"
      "\<forall>j. find_user s2 j
           = (if j = t_ownerUserId tx then Some (?owner1\<lparr>u_points := u_points ?owner1 - t_amount tx\<rparr>)
              else find_user s1 j)"
    by auto
  have "\<forall>j. find_user s2 j = find_user s j"
    using s2(3) s1(3) owner by simp
  then have "\<forall>j. points_of s2 j = points_of s j"
    by (simp add: points_of_def)
  moreover have "points_of s1 (t_ownerUserId tx) = Some (u_points owner + t_amount tx)"
    using s1(3) by (simp add: points_of_def)
  ultimately show ?thesis
    using s1(1,2) s2(1,2) by auto
qed

text \<open>
  On the example store: alice's withheld purchase of 600 is released (100 to 700) and
  withheld again (back to 100), the amount staying 600.
\<close>

theorem suspicious_round_trip_witness:
  "requireRole Manager (auth_role mallory)
   \<and> map_option t_type (find_transaction example_store 1) = Some Purchase
   \<and> map_option t_suspicious (find_transaction example_store 1) = Some True
   \<and> points_of example_store 1 = Some 100
   \<and> (\<exists>s1 s2 r1 r2.
           patch_suspicious mallory (Some 1) (JBool False) example_store = (s1, Inr r1)
         \<and> patch_suspicious mallory (Some 1) (JBool True) s1 = (s2, Inr r2)
         \<and> points_of s1 1 = Some 700
         \<and> points_of s2 1 = Some 100
         \<and> map_option t_amount (find_transaction s1 1) = Some 600
         \<and> map_option t_amount (find_transaction s2 1) = Some 600)"
proof -
  let ?tx = "transaction_defaults\<lparr>t_id := 1, t_type := Purchase, t_amount := 600,
               t_spent := Some 100, t_suspicious := True, t_ownerUserId := 1,
               t_creatorUserId := 4, t_promotions := [1]\<rparr>"
  have role: "requireRole Manager (auth_role mallory)"
    by (simp add: requireRole_def mallory_def)
  have tx: "find_transaction example_store 1 = Some ?tx"
    by (simp add: example_defs)
  have purchase: "t_type ?tx = Purchase" and flagged: "t_suspicious ?tx"
    by simp_all
  have owner: "find_user example_store (t_ownerUserId ?tx)
                 = Some (example_user 1 ''alice'' Regular 100 True False)"
    by (simp add: example_defs)
  have bal: "points_of example_store 1 = Some 100"
    by (simp add: example_defs)
  from suspicious_round_trip [OF role tx purchase flagged owner]
  obtain s1 s2 r1 r2 where
      r1: "patch_suspicious mallory (Some 1) (JBool False) example_store = (s1, Inr r1)"
    and r2: "patch_suspicious mallory (Some 1) (JBool True) s1 = (s2, Inr r2)"
    and p1: "points_of s1 1 = Some 700"
    and p2: "\<forall>j. points_of s2 j = points_of example_store j"
    and a1: "map_option t_amount (find_transaction s1 1) = Some 600"
    and a2: "map_option t_amount (find_transaction s2 1) = Some 600"
    by (auto simp: example_user_def)
  from p2 bal have "points_of s2 1 = Some 100"
    by simp
  with r1 r2 p1 a1 a2 have "\<exists>s1 s2 r1 r2.
           patch_suspicious mallory (Some 1) (JBool False) example_store = (s1, Inr r1)
         \<and> patch_suspicious mallory (Some 1) (JBool True) s1 = (s2, Inr r2)
         \<and> points_of s1 1 = Some 700
         \<and> points_of s2 1 = Some 100
         \<and> map_option t_amount (find_transaction s1 1) = Some 600
         \<and> map_option t_amount (find_transaction s2 1) = Some 600"
    by blast
  with role tx bal show ?thesis
    by simp
qed

section \<open>Transfers\<close>

text \<open>
  C7. For every transfer of a positive whole amount \<open>n\<close> from a verified sender whose
  balance is at least \<open>n\<close> to another, existing user, the request succeeds; afterwards
  the sender's balance is \<open>n\<close> lower, the recipient's \<open>n\<close> higher, every other balance
  unchanged, and the transaction table has exactly two new rows, both transfers: the
  first owned by the sender with amount \<open>-n\<close> and the recipient as related user, the
  second owned by the recipient with amount \<open>n\<close> and the sender as related user.
\<close>

theorem transfer_moves_points:
  assumes ty: "type = JStr ''transfer''"
    and amt: "amount = JNum (of_int n)" "0 < n"
    and sender: "find_user s (auth_id a) = Some sender" "u_verified sender"
      "n \<le> u_points sender"
    and recipient: "recipientId \<noteq> auth_id a" "find_user s recipientId = Some recipient"
  shows "\<exists>s' t1 t2.
           post_user_transactions a (Some recipientId) type amount remark s
             = (s', Inr (Response 201 [t1]))
         \<and> points_of s' (auth_id a) = Some (u_points sender - n)
         \<and> points_of s' recipientId = Some (u_points recipient + n)
         \<and> (\<forall>j. j \<noteq> auth_id a \<and> j \<noteq> recipientId \<longrightarrow> points_of s' j = points_of s j)
         \<and> transactions s' = transactions s @ [t1, t2]
         \<and> t_type t1 = Transfer \<and> t_amount t1 = - n
         \<and> t_ownerUserId t1 = auth_id a \<and> t_relatedUserId t1 = Some recipientId
         \<and> t_type t2 = Transfer \<and> t_amount t2 = n
         \<and> t_ownerUserId t2 = recipientId \<and> t_relatedUserId t2 = Some (auth_id a)"
proof -
  let ?d1 = "transaction_defaults\<lparr>t_type := Transfer, t_amount := - n, t_remark := remark,
               t_ownerUserId := auth_id a, t_creatorUserId := auth_id a,
               t_relatedUserId := Some recipientId\<rparr>"
  let ?d2 = "transaction_defaults\<lparr>t_type := Transfer, t_amount := n, t_remark := remark,
               t_ownerUserId := recipientId, t_creatorUserId := auth_id a,
               t_relatedUserId := Some (auth_id a)\<rparr>"
  let ?t1 = "?d1\<lparr>t_id := next_transaction_id s\<rparr>"
  let ?s1 = "s\<lparr>transactions := transactions s @ [?t1]\<rparr>"
  let ?t2 = "?d2\<lparr>t_id := next_transaction_id ?s1\<rparr>"
  let ?s2 = "?s1\<lparr>transactions := transactions ?s1 @ [?t2]\<rparr>"
  have c1: "transaction_create ?d1 s = Some (?s1, ?t1)"
    using sender(1) by (simp add: transaction_create_ok transaction_defaults_def)
  have c2: "transaction_create ?d2 ?s1 = Some (?s2, ?t2)"
    using sender(1) recipient(2) by (simp add: transaction_create_ok transaction_defaults_def)
  have sender2: "find_user ?s2 (auth_id a) = Some sender"
    using sender(1) by simp
  from user_update_points [OF sender2, of "decrement_points n"]
  obtain s3 where s3: "user_update (auth_id a) (decrement_points n) ?s2 = Some s3"
      "transactions s3 = transactions ?s2"
      "\<forall>j. find_user s3 j = (if j = auth_id a then Some (decrement_points n sender)
                              else find_user ?s2 j)"
    by auto
  have recipient3: "find_user s3 recipientId = Some recipient"
    using s3(3) recipient by simp
  from user_update_points [OF recipient3, of "increment_points n"]
  obtain s4 where s4: "user_update recipientId (increment_points n) s3 = Some s4"
      "transactions s4 = transactions s3"
      "\<forall>j. find_user s4 j = (if j = recipientId then Some (increment_points n recipient)
                              else find_user s3 j)"
    by auto
  have out: "post_user_transactions a (Some recipientId) type amount remark s
               = (s4, Inr (Response 201 [?t1]))"
    using ty amt sender recipient c1 c2 s3(1) s4(1)
    by (simp add: post_user_transactions_def nullish_def Let_def)
  have "points_of s4 (auth_id a) = Some (u_points sender - n)"
    using s4(3) s3(3) recipient(1) by (simp add: points_of_def decrement_points_def)
  moreover have "points_of s4 recipientId = Some (u_points recipient + n)"
    using s4(3) by (simp add: points_of_def increment_points_def)
  moreover have "\<forall>j. j \<noteq> auth_id a \<and> j \<noteq> recipientId \<longrightarrow> points_of s4 j = points_of s j"
    using s4(3) s3(3) by (simp add: points_of_def)
  moreover have "transactions s4 = transactions s @ [?t1, ?t2]"
    using s4(2) s3(2) by simp
  ultimately show ?thesis
    using out by (intro exI [of _ s4] exI [of _ ?t1] exI [of _ ?t2]) simp
qed

text \<open>
  On the example store alice (100 points) sends 50 to bob (none): both end with 50 and
  two rows are added, each naming the other party.
\<close>

theorem transfer_moves_points_witness:
  "points_of example_store 1 = Some 100 \<and> points_of example_store 2 = Some 0
   \<and> (\<exists>s' t1 t2.
           post_user_transactions alice (Some 2) (JStr ''transfer'') (JNum 50) [] example_store
             = (s', Inr (Response 201 [t1]))
         \<and> points_of s' 1 = Some 50 \<and> points_of s' 2 = Some 50
         \<and> transactions s' = transactions example_store @ [t1, t2]
         \<and> t_ownerUserId t1 = 1 \<and> t_relatedUserId t1 = Some 2 \<and> t_amount t1 = - 50
         \<and> t_ownerUserId t2 = 2 \<and> t_relatedUserId t2 = Some 1 \<and> t_amount t2 = 50)"
proof -
  have amt: "JNum 50 = JNum (of_int 50)" "(0::int) < 50"
    by simp_all
  have sender: "find_user example_store (auth_id alice)
                  = Some (example_user 1 ''alice'' Regular 100 True False)"
      "u_verified (example_user 1 ''alice'' Regular 100 True False)"
      "50 \<le> u_points (example_user 1 ''alice'' Regular 100 True False)"
    by (simp_all add: example_defs)
  have recipient: "2 \<noteq> auth_id alice"
      "find_user example_store 2 = Some (example_user 2 ''bob'' Regular 0 True False)"
    by (simp_all add: example_defs)
  have bal: "points_of example_store 1 = Some 100 \<and> points_of example_store 2 = Some 0"
    by (simp add: example_defs)
  from transfer_moves_points [OF refl amt sender recipient, of "[]"]
  obtain s' t1 t2 where
      "post_user_transactions alice (Some 2) (JStr ''transfer'') (JNum 50) [] example_store
         = (s', Inr (Response 201 [t1]))"
      "points_of s' 1 = Some 50" "points_of s' 2 = Some 50"
      "transactions s' = transactions example_store @ [t1, t2]"
      "t_ownerUserId t1 = 1" "t_relatedUserId t1 = Some 2" "t_amount t1 = - 50"
      "t_ownerUserId t2 = 2" "t_relatedUserId t2 = Some 1" "t_amount t2 = 50"
    by (auto simp: example_user_def alice_def)
  then have "\<exists>s' t1 t2.
           post_user_transactions alice (Some 2) (JStr ''transfer'') (JNum 50) [] example_store
             = (s', Inr (Response 201 [t1]))
         \<and> points_of s' 1 = Some 50 \<and> points_of s' 2 = Some 50
         \<and> transactions s' = transactions example_store @ [t1, t2]
         \<and> t_ownerUserId t1 = 1 \<and> t_relatedUserId t1 = Some 2 \<and> t_amount t1 = - 50
         \<and> t_ownerUserId t2 = 2 \<and> t_relatedUserId t2 = Some 1 \<and> t_amount t2 = 50"
    by blast
  with bal show ?thesis by simp
qed

section \<open>Redemption requests\<close>




section \<open>Role updates by a manager\<close>

text \<open>
  C9. When the caller's role is manager: a request that names the role manager or
  superuser is refused and the store stays as it was (with 403 when nothing else is
  sent); a request that names cashier while the target would be suspicious (the flag
  sent with the request, or else the stored one) is refused and the store stays as it
  was; and after any accepted request the target's role is the old one when no role
  was named, cashier (with the suspicious flag cleared) or regular otherwise.
\<close>

theorem manager_assigns_only_cashier_or_regular:
  assumes mgr: "auth_role a = Manager"
    and target: "find_user s targetUserId = Some targetUser"
  shows "(pb_role b = JStr ''manager'' \<or> pb_role b = JStr ''superuser'' \<longrightarrow>
            (\<exists>e. patch_user a (Some targetUserId) b s = (s, Inl e))
          \<and> (nullish (pb_email b) \<and> nullish (pb_verified b) \<and> nullish (pb_suspicious b) \<longrightarrow>
               patch_user a (Some targetUserId) b s
                 = (s, Inl (Forbidden ''Insufficient permissions''))))
       \<and> (pb_role b = JStr ''cashier'' \<and> willBeSuspicious b targetUser \<longrightarrow>
            (\<exists>e. patch_user a (Some targetUserId) b s = (s, Inl e))
          \<and> (nullish (pb_email b) \<and> nullish (pb_verified b) \<longrightarrow>
               patch_user a (Some targetUserId) b s
                 = (s, Inl (BadRequest ''Cannot promote suspicious user to cashier''))))
       \<and> (\<forall>s' r. patch_user a (Some targetUserId) b s = (s', Inr r) \<longrightarrow>
            (nullish (pb_role b)
               \<and> map_option u_role (find_user s' targetUserId) = Some (u_role targetUser))
          \<or> (pb_role b = JStr ''cashier'' \<and> \<not> willBeSuspicious b targetUser
               \<and> map_option u_role (find_user s' targetUserId) = Some Cashier
               \<and> map_option u_suspicious (find_user s' targetUserId) = Some False)
          \<or> (pb_role b = JStr ''regular''
               \<and> map_option u_role (find_user s' targetUserId) = Some Regular))"
proof (intro conjI impI allI)
  assume r: "pb_role b = JStr ''manager'' \<or> pb_role b = JStr ''superuser''"
  then have "\<And>d. patch_role Manager targetUser (pb_suspicious b) (pb_role b) d
                 = Inl (Forbidden ''Insufficient permissions'')"
    by (auto simp: patch_role_manager_refuses)
  then show "\<exists>e. patch_user a (Some targetUserId) b s = (s, Inl e)"
    using mgr target
    by (auto simp: patch_user_def requireRole_def split: sum.splits)
next
  assume r: "pb_role b = JStr ''manager'' \<or> pb_role b = JStr ''superuser''"
    and n: "nullish (pb_email b) \<and> nullish (pb_verified b) \<and> nullish (pb_suspicious b)"
  from r have "\<And>d. patch_role Manager targetUser (pb_suspicious b) (pb_role b) d
                 = Inl (Forbidden ''Insufficient permissions'')"
    by (auto simp: patch_role_manager_refuses)
  then show "patch_user a (Some targetUserId) b s
               = (s, Inl (Forbidden ''Insufficient permissions''))"
    using mgr target n
    by (simp add: patch_user_def requireRole_def patch_user_nullish_fields)
next
  assume c: "pb_role b = JStr ''cashier'' \<and> willBeSuspicious b targetUser"
  show "\<exists>e. patch_user a (Some targetUserId) b s = (s, Inl e)"
  proof (cases "\<not> nullish (pb_suspicious b) \<longrightarrow> (\<exists>v. pb_suspicious b = JBool v)")
    case True
    from patch_role_cashier_refuses [OF True, of targetUser] c
    have "\<And>d. patch_role Manager targetUser (pb_suspicious b) (pb_role b) d
                 = Inl (BadRequest ''Cannot promote suspicious user to cashier'')"
      by (simp add: willBeSuspicious_def)
    then show ?thesis
      using mgr target
      by (auto simp: patch_user_def requireRole_def split: sum.splits)
  next
    case False
    then have "\<And>d. patch_suspicious_field (pb_suspicious b) d
                     = Inl (BadRequest ''Suspicious must be a boolean'')"
      by (cases "pb_suspicious b") (auto simp: patch_suspicious_field_def nullish_def)
    then show ?thesis
      using mgr target
      by (auto simp: patch_user_def requireRole_def split: sum.splits)
  qed
next
  assume c: "pb_role b = JStr ''cashier'' \<and> willBeSuspicious b targetUser"
    and n: "nullish (pb_email b) \<and> nullish (pb_verified b)"
  show "patch_user a (Some targetUserId) b s
          = (s, Inl (BadRequest ''Cannot promote suspicious user to cashier''))"
  proof (cases "nullish (pb_suspicious b)")
    case True
    from patch_role_cashier_refuses [of "pb_suspicious b" targetUser] True c
    have "\<And>d. patch_role Manager targetUser (pb_suspicious b) (pb_role b) d
                 = Inl (BadRequest ''Cannot promote suspicious user to cashier'')"
      by (simp add: willBeSuspicious_def)
    then show ?thesis
      using mgr target n True
      by (simp add: patch_user_def requireRole_def patch_user_nullish_fields)
  next
    case False
    with c have v: "pb_suspicious b = JBool True"
      by (simp add: willBeSuspicious_def)
    then have "\<And>d. patch_role Manager targetUser (pb_suspicious b) (pb_role b) d
                 = Inl (BadRequest ''Cannot promote suspicious user to cashier'')"
      using c by (simp add: patch_role_def nullish_def)
    then show ?thesis
      using mgr target n v
      by (simp add: patch_user_def requireRole_def patch_email_def patch_verified_def
          patch_suspicious_field_def nullish_def)
  qed
next
  fix s' r
  assume ok: "patch_user a (Some targetUserId) b s = (s', Inr r)"
  from ok mgr target obtain d1 d2 d3 d4 where
      d1: "patch_email s targetUserId (pb_email b) no_updateData = Inr d1"
    and d2: "patch_verified (pb_verified b) d1 = Inr d2"
    and d3: "patch_suspicious_field (pb_suspicious b) d2 = Inr d3"
    and d4: "patch_role Manager targetUser (pb_suspicious b) (pb_role b) d3 = Inr d4"
    and upd: "user_update targetUserId (apply_updateData d4) s = Some s'"
    by (auto simp: patch_user_def requireRole_def split: sum.splits if_splits option.splits)
  have role3: "ud_role d3 = None"
    using patch_email_role [OF d1] patch_verified_role [OF d2] patch_suspicious_field_role [OF d3]
    by (simp add: no_updateData_def)
  have new: "find_user s' targetUserId = Some (apply_updateData d4 targetUser)"
    using find_user_user_update [OF upd, of targetUserId] target by simp
  from patch_role_Inr [OF d4 patch_suspicious_field_Inr [OF d3]]
  show "(nullish (pb_role b)
               \<and> map_option u_role (find_user s' targetUserId) = Some (u_role targetUser))
          \<or> (pb_role b = JStr ''cashier'' \<and> \<not> willBeSuspicious b targetUser
               \<and> map_option u_role (find_user s' targetUserId) = Some Cashier
               \<and> map_option u_suspicious (find_user s' targetUserId) = Some False)
          \<or> (pb_role b = JStr ''regular''
               \<and> map_option u_role (find_user s' targetUserId) = Some Regular)"
    using new role3 by (auto simp: apply_updateData_def willBeSuspicious_def)
qed

text \<open>
  On the example store the manager cannot make alice a manager, cannot make the
  suspicious dave a cashier, and can make bob a cashier.
\<close>

theorem manager_assigns_only_cashier_or_regular_witness:
  "auth_role mallory = Manager
   \<and> patch_user mallory (Some 1) (role_only ''manager'') example_store
       = (example_store, Inl (Forbidden ''Insufficient permissions''))
   \<and> map_option u_suspicious (find_user example_store 4) = Some True
   \<and> patch_user mallory (Some 4) (role_only ''cashier'') example_store
       = (example_store, Inl (BadRequest ''Cannot promote suspicious user to cashier''))
   \<and> (\<exists>s' r. patch_user mallory (Some 2) (role_only ''cashier'') example_store = (s', Inr r)
          \<and> map_option u_role (find_user s' 2) = Some Cashier)"
proof -
  have mgr: "auth_role mallory = Manager"
    by (simp add: mallory_def)
  have t1: "find_user example_store 1 = Some (example_user 1 ''alice'' Regular 100 True False)"
    and t4: "find_user example_store 4 = Some (example_user 4 ''dave'' Cashier 0 True True)"
    and t2: "find_user example_store 2 = Some (example_user 2 ''bob'' Regular 0 True False)"
    by (simp_all add: example_defs)
  have n: "\<And>r. nullish (pb_email (role_only r)) \<and> nullish (pb_verified (role_only r))
              \<and> nullish (pb_suspicious (role_only r))"
    by (simp add: role_only_def nullish_def)
  from manager_assigns_only_cashier_or_regular [OF mgr t1, of "role_only ''manager''"] n
  have a: "patch_user mallory (Some 1) (role_only ''manager'') example_store
       = (example_store, Inl (Forbidden ''Insufficient permissions''))"
    by (simp add: role_only_def)
  have "willBeSuspicious (role_only ''cashier'') (example_user 4 ''dave'' Cashier 0 True True)"
    by (simp add: willBeSuspicious_def role_only_def nullish_def example_user_def)
  with manager_assigns_only_cashier_or_regular [OF mgr t4, of "role_only ''cashier''"] n
  have b: "patch_user mallory (Some 4) (role_only ''cashier'') example_store
       = (example_store, Inl (BadRequest ''Cannot promote suspicious user to cashier''))"
    by (simp add: role_only_def)
  obtain s' r where ok: "patch_user mallory (Some 2) (role_only ''cashier'') example_store
      = (s', Inr r)"
    by (simp add: patch_user_def example_defs requireRole_def patch_email_def
        patch_verified_def patch_suspicious_field_def patch_role_def nullish_def
        no_updateData_def user_update_def Let_def)
  from manager_assigns_only_cashier_or_regular [OF mgr t2, of "role_only ''cashier''"] ok
  have "map_option u_role (find_user s' 2) = Some Cashier"
    by (auto simp: role_only_def nullish_def)
  with ok have c: "\<exists>s' r. patch_user mallory (Some 2) (role_only ''cashier'') example_store
      = (s', Inr r) \<and> map_option u_role (find_user s' 2) = Some Cashier"
    by blast
  from mgr a b c t4 show ?thesis
    by (simp add: example_user_def)
qed

section \<open>Event awards\<close>

text \<open>
  C6. A request for an event award keeps ``awarded at most total'' true of every event,
  whatever its outcome; and an award whose total (the amount, or the amount times the
  number of guests when no user is named) exceeds what remains of the event's budget
  fails with the store unchanged, so no balance and no awarded total moves. The event
  update, the only other writer of the budget, never sets a total below what has been
  awarded.
\<close>

theorem event_award_within_budget:
  "(budget_respected s \<longrightarrow>
      budget_respected (fst (post_event_transactions a eventId type utorid amount remark s)))
   \<and> (\<forall>evtId ev n. eventId = Some evtId \<and> find_event s evtId = Some ev
          \<and> amount = JNum (of_int n)
          \<and> e_pointsTotal ev - e_pointsAwarded ev
              < (if falsy utorid then n * int (length (e_guests ev)) else n)
        \<longrightarrow> (\<exists>e. post_event_transactions a eventId type utorid amount remark s = (s, Inl e)))
   \<and> (\<forall>mgr ev points n. patch_event_points mgr ev points = Inr (Some n)
        \<longrightarrow> e_pointsAwarded ev \<le> n)"
proof (intro conjI impI allI)
  assume "budget_respected s"
  then show "budget_respected (fst (post_event_transactions a eventId type utorid amount remark s))"
    by (rule post_event_transactions_budget)
next
  fix evtId ev n
  assume h: "eventId = Some evtId \<and> find_event s evtId = Some ev
          \<and> amount = JNum (of_int n)
          \<and> e_pointsTotal ev - e_pointsAwarded ev
              < (if falsy utorid then n * int (length (e_guests ev)) else n)"
  then show "\<exists>e. post_event_transactions a eventId type utorid amount remark s = (s, Inl e)"
    by (auto simp: post_event_transactions_def Let_def split: option.splits jsval.splits)
next
  fix mgr ev points n
  assume "patch_event_points mgr ev points = Inr (Some n)"
  then show "e_pointsAwarded ev \<le> n"
    by (cases points) (auto simp: patch_event_points_def nullish_def split: if_splits)
qed

text \<open>
  On the example store the event has awarded 80 of 100 points: awarding 30 to alice is
  refused with the store unchanged, awarding 10 is accepted and brings the awarded
  total to 90.
\<close>

theorem event_award_within_budget_witness:
  "budget_respected example_store
   \<and> map_option e_pointsTotal (find_event example_store 1) = Some 100
   \<and> map_option e_pointsAwarded (find_event example_store 1) = Some 80
   \<and> post_event_transactions mallory (Some 1) (JStr ''event'') (JStr ''alice'') (JNum 30) []
        example_store
       = (example_store, Inl (BadRequest ''Insufficient points remaining''))
   \<and> (\<exists>r. snd (post_event_transactions mallory (Some 1) (JStr ''event'') (JStr ''alice'')
                  (JNum 10) [] example_store) = Inr r)
   \<and> map_option e_pointsAwarded
        (find_event (fst (post_event_transactions mallory (Some 1) (JStr ''event'')
                            (JStr ''alice'') (JNum 10) [] example_store)) 1) = Some 90
   \<and> budget_respected (fst (post_event_transactions mallory (Some 1) (JStr ''event'')
                              (JStr ''alice'') (JNum 10) [] example_store))
   \<and> patch_event_points True
        \<lparr>e_id = 1, e_pointsTotal = 100, e_pointsAwarded = 80, e_organizers = [5],
         e_guests = [1, 2]\<rparr> (JNum 90) = Inr (Some 90)
   \<and> patch_event_points True
        \<lparr>e_id = 1, e_pointsTotal = 100, e_pointsAwarded = 80, e_organizers = [5],
         e_guests = [1, 2]\<rparr> (JNum 50)
       = Inl (BadRequest ''Cannot reduce points below already awarded amount'')"
proof -
  let ?ev = "\<lparr>e_id = 1, e_pointsTotal = 100, e_pointsAwarded = 80, e_organizers = [5],
              e_guests = [1, 2]\<rparr>"
  have inv: "budget_respected example_store"
    by (simp add: budget_respected_def example_store_def)
  have ev: "find_event example_store 1 = Some ?ev"
    by (simp add: example_defs)
  have over: "Some (1::nat) = Some 1 \<and> find_event example_store 1 = Some ?ev
      \<and> JNum 30 = JNum (of_int 30)
      \<and> e_pointsTotal ?ev - e_pointsAwarded ?ev
          < (if falsy (JStr ''alice'') then 30 * int (length (e_guests ?ev)) else 30)"
    using ev by simp
  from event_award_within_budget [of example_store mallory "Some 1" "JStr ''event''"
      "JStr ''alice''" "JNum 30" "[]"] over
  obtain e where e: "post_event_transactions mallory (Some 1) (JStr ''event'') (JStr ''alice'')
      (JNum 30) [] example_store = (example_store, Inl e)"
    by blast
  have "snd (post_event_transactions mallory (Some 1) (JStr ''event'') (JStr ''alice'')
      (JNum 30) [] example_store) = Inl (BadRequest ''Insufficient points remaining'')"
    by (simp add: post_event_transactions_def example_defs Let_def)
  with e have scenario: "post_event_transactions mallory (Some 1) (JStr ''event'')
      (JStr ''alice'') (JNum 30) [] example_store
       = (example_store, Inl (BadRequest ''Insufficient points remaining''))"
    by simp
  from event_award_within_budget [of example_store mallory "Some 1" "JStr ''event''"
      "JStr ''alice''" "JNum 10" "[]"] inv
  have kept: "budget_respected (fst (post_event_transactions mallory (Some 1) (JStr ''event'')
                              (JStr ''alice'') (JNum 10) [] example_store))"
    by blast
  have committed: "(\<exists>r. snd (post_event_transactions mallory (Some 1) (JStr ''event'') (JStr ''alice'')
                  (JNum 10) [] example_store) = Inr r)
     \<and> map_option e_pointsAwarded
        (find_event (fst (post_event_transactions mallory (Some 1) (JStr ''event'')
                            (JStr ''alice'') (JNum 10) [] example_store)) 1) = Some 90"
    by (simp add: post_event_transactions_def example_defs Let_def transaction_create_def
        user_update_def event_update_def)
  have patch: "patch_event_points True ?ev (JNum 90) = Inr (Some 90)"
      "patch_event_points True ?ev (JNum 50)
         = Inl (BadRequest ''Cannot reduce points below already awarded amount'')"
    by (simp_all add: patch_event_points_def nullish_def)
  from event_award_within_budget [of example_store mallory "Some 1" "JStr ''event''"
      "JStr ''alice''" "JNum 10" "[]"] patch(1)
  have "e_pointsAwarded ?ev \<le> 90"
    by blast
  with inv ev scenario kept committed patch show ?thesis
    by simp
qed

section \<open>Facts about the purchase computation\<close>

lemma js_round_nonneg: "0 \<le> q \<Longrightarrow> 0 \<le> js_round q"
  by (simp add: js_round_def)

lemma js_divide_nonneg:
  assumes "0 \<le> a" and "0 \<le> b" and "js_divide a b = Some q"
  shows "0 \<le> q"
proof -
  from assms(3) obtain x y where xy: "double_of a = Some x" "double_of b = Some y" "y \<noteq> 0"
      "double_of (x / y) = Some q"
    by (auto simp: js_divide_def split: option.splits if_splits)
  from double_of_nonneg [OF assms(1) xy(1)] double_of_nonneg [OF assms(2) xy(2)]
  have "0 \<le> x / y" by simp
  from double_of_nonneg [OF this xy(4)] show ?thesis .
qed

lemma js_plus_Some:
  "js_plus a b = Some v \<Longrightarrow> \<exists>x y. a = Some x \<and> b = Some y \<and> double_of (x + y) = Some v"
  by (auto simp: js_plus_def split: option.splits)

lemma js_plus_None [simp]: "js_plus None b = None"
  by (simp add: js_plus_def)

text \<open>Adding a whole number that is not negative: exact as long as the sum stays within 53 bits.\<close>

lemma double_add_exact:
  assumes "0 \<le> v" and "0 \<le> x" and "double_of (v + of_int x) = Some w"
  shows "0 \<le> w \<and> (\<forall>c. v = of_int c \<and> c + x \<le> 2 ^ 53 \<longrightarrow> w = of_int (c + x))"
proof (intro conjI allI impI)
  from assms(1,2) have "0 \<le> v + of_int x" by simp
  from double_of_nonneg [OF this assms(3)] show "0 \<le> w" .
next
  fix c
  assume c: "v = of_int c \<and> c + x \<le> 2 ^ 53"
  with assms(1) have "0 \<le> c" by simp
  with assms(2) c have "double_of (of_int (c + x)) = Some (of_int (c + x))"
    by (intro double_of_int_exact) simp_all
  with assms(3) c show "w = of_int (c + x)" by simp
qed

lemma add_promotion_points_None [simp]: "add_promotion_points spent p None = None"
  by (simp add: add_promotion_points_def Let_def split: option.splits)

lemma add_promotion_points_step:
  assumes rate: "\<And>r. p_rate p = Some r \<Longrightarrow> 0 < r"
    and bonus: "\<And>n. p_points p = Some n \<Longrightarrow> 0 \<le> n"
    and spent: "0 < spent" and v0: "0 \<le> v0"
    and step: "add_promotion_points spent p (Some v0) = Some v1"
  shows "\<exists>T. contribution spent p = Some T \<and> 0 \<le> T \<and> 0 \<le> v1
            \<and> (\<forall>c. v0 = of_int c \<and> c + T \<le> 2 ^ 53 \<longrightarrow> v1 = of_int (c + T))"
proof -
  define withRate where "withRate =
    (case p_rate p of
       Some r \<Rightarrow> if r \<noteq> 0 then js_plus (Some v0) (Math_round (js_divide spent r)) else Some v0
     | None \<Rightarrow> Some v0)"
  define n where "n = (case p_points p of None \<Rightarrow> 0 | Some n \<Rightarrow> n)"
  have n0: "0 \<le> n"
    using bonus by (auto simp: n_def split: option.splits)
  have final: "(if n = 0 then withRate else js_plus withRate (Some (of_int n))) = Some v1"
    using step by (auto simp: add_promotion_points_def Let_def withRate_def n_def split: option.splits)
  then obtain w where w: "withRate = Some w"
    by (cases withRate) (auto split: if_splits)
  have "\<exists>q. (case p_rate p of None \<Rightarrow> Some 0 | Some r \<Rightarrow> rounded_quotient spent r) = Some q
            \<and> 0 \<le> q \<and> 0 \<le> w
            \<and> (\<forall>c. v0 = of_int c \<and> c + q \<le> 2 ^ 53 \<longrightarrow> w = of_int (c + q))"
  proof (cases "p_rate p")
    case None
    with w v0 show ?thesis by (simp add: withRate_def)
  next
    case (Some r)
    with rate have r: "0 < r" by simp
    with w Some have "js_plus (Some v0) (Math_round (js_divide spent r)) = Some w"
      by (simp add: withRate_def)
    then obtain q where q: "js_divide spent r = Some q"
        "double_of (v0 + of_int (js_round q)) = Some w"
      by (auto simp: Math_round_def dest!: js_plus_Some)
    from js_divide_nonneg [OF _ _ q(1)] spent r have "0 \<le> q" by simp
    then have "0 \<le> js_round q" by (rule js_round_nonneg)
    from double_add_exact [OF v0 this q(2)] Some q(1) \<open>0 \<le> js_round q\<close> show ?thesis
      by (simp add: rounded_quotient_def)
  qed
  then obtain q where q: "(case p_rate p of None \<Rightarrow> Some 0 | Some r \<Rightarrow> rounded_quotient spent r) = Some q"
      "0 \<le> q" "0 \<le> w" "\<forall>c. v0 = of_int c \<and> c + q \<le> 2 ^ 53 \<longrightarrow> w = of_int (c + q)"
    by blast
  have contrib: "contribution spent p = Some (q + n)"
    using q(1) by (simp add: contribution_def n_def)
  have "0 \<le> v1 \<and> (\<forall>c. v0 = of_int c \<and> c + (q + n) \<le> 2 ^ 53 \<longrightarrow> v1 = of_int (c + (q + n)))"
  proof (cases "n = 0")
    case True
    with final w q show ?thesis by simp
  next
    case False
    with final w have "double_of (w + of_int n) = Some v1"
      by (auto dest!: js_plus_Some)
    from double_add_exact [OF q(3) n0 this]
    have v1: "0 \<le> v1" and ex: "\<And>c. w = of_int c \<Longrightarrow> c + n \<le> 2 ^ 53 \<Longrightarrow> v1 = of_int (c + n)"
      by blast+
    have "v1 = of_int (c + (q + n))" if c: "v0 = of_int c \<and> c + (q + n) \<le> 2 ^ 53" for c
    proof -
      from c n0 have "c + q \<le> 2 ^ 53" by simp
      with q(4) c have "w = of_int (c + q)" by blast
      from ex [OF this] c show ?thesis by (simp add: add.assoc)
    qed
    with v1 show ?thesis by blast
  qed
  with contrib q(2) n0 show ?thesis by auto
qed

lemma total_append:
  "total (xs @ ys) = (case total xs of None \<Rightarrow> None | Some a \<Rightarrow> map_option (\<lambda>b. a + b) (total ys))"
proof (induction xs)
  case Nil
  show ?case by (cases "total ys") simp_all
next
  case (Cons x xs)
  show ?case
  proof (cases x)
    case None
    then show ?thesis by simp
  next
    case (Some a)
    show ?thesis
      by (cases "total xs"; cases "total ys") (simp_all add: Some Cons.IH add.assoc)
  qed
qed

lemma promotions_valid_mem:
  "promotions_valid s \<Longrightarrow> p \<in> set (promotions s) \<Longrightarrow>
   (\<forall>r. p_rate p = Some r \<longrightarrow> 0 < r) \<and> (\<forall>n. p_points p = Some n \<longrightarrow> 0 \<le> n)"
  by (auto simp: promotions_valid_def list_all_iff)

lemma map_filter_find_promotion_mem:
  "p \<in> set (List.map_filter (find_promotion s) ids) \<Longrightarrow> p \<in> set (promotions s)"
  by (auto simp: List.map_filter_def find_promotion_def dest: find_Some_mem)

lemma automaticPromotions_mem:
  "p \<in> set (automaticPromotions s now spent) \<Longrightarrow> p \<in> set (promotions s)"
  by (simp add: automaticPromotions_def)

lemma automaticPromotions_qualifies:
  "automaticPromotions s now spent = filter (qualifies now spent) (promotions s)"
proof -
  have "qualifies now spent = (\<lambda>p. p_type p = Automatic \<and> p_startTime p \<le> now \<and> now \<le> p_endTime p
      \<and> (case p_minSpending p of None \<Rightarrow> True | Some m \<Rightarrow> m \<le> spent))"
    by (rule ext) (simp add: qualifies_def)
  then show ?thesis by (simp add: automaticPromotions_def)
qed

lemma apply_automatic_None:
  "apply_automatic spent ps (None, ids) = (None, ids @ map p_id ps)"
  by (induction ps arbitrary: ids) simp_all

lemma apply_automatic_earned:
  assumes "\<forall>p \<in> set ps. (\<forall>r. p_rate p = Some r \<longrightarrow> 0 < r) \<and> (\<forall>n. p_points p = Some n \<longrightarrow> 0 \<le> n)"
    and "0 < spent" and "0 \<le> v0"
    and "apply_automatic spent ps (Some v0, ids) = (Some v, ids')"
  shows "\<exists>T. total (map (contribution spent) ps) = Some T \<and> 0 \<le> T \<and> 0 \<le> v
            \<and> ids' = ids @ map p_id ps
            \<and> (\<forall>c. v0 = of_int c \<and> c + T \<le> 2 ^ 53 \<longrightarrow> v = of_int (c + T))"
  using assms
proof (induction ps arbitrary: v0 ids)
  case Nil
  then show ?case by simp
next
  case (Cons p ps)
  show ?case
  proof (cases "add_promotion_points spent p (Some v0)")
    case None
    with Cons.prems(4) show ?thesis by (simp add: apply_automatic_None)
  next
    case (Some v1)
    from Cons.prems(1) have p: "\<And>r. p_rate p = Some r \<Longrightarrow> 0 < r" "\<And>n. p_points p = Some n \<Longrightarrow> 0 \<le> n"
      by simp_all
    from add_promotion_points_step [OF p Cons.prems(2,3) Some]
    obtain Tp where Tp: "contribution spent p = Some Tp" "0 \<le> Tp" "0 \<le> v1"
        "\<And>c. v0 = of_int c \<Longrightarrow> c + Tp \<le> 2 ^ 53 \<Longrightarrow> v1 = of_int (c + Tp)"
      by blast
    from Cons.prems(4) Some have "apply_automatic spent ps (Some v1, ids @ [p_id p]) = (Some v, ids')"
      by simp
    from Cons.IH [OF _ Cons.prems(2) Tp(3) this] Cons.prems(1)
    obtain T where T: "total (map (contribution spent) ps) = Some T" "0 \<le> T" "0 \<le> v"
        "ids' = (ids @ [p_id p]) @ map p_id ps"
        "\<And>c. v1 = of_int c \<Longrightarrow> c + T \<le> 2 ^ 53 \<Longrightarrow> v = of_int (c + T)"
      by auto
    have "v = of_int (c + (Tp + T))" if c: "v0 = of_int c \<and> c + (Tp + T) \<le> 2 ^ 53" for c
    proof -
      from c T(2) have "c + Tp \<le> 2 ^ 53" by simp
      with Tp(4) c have "v1 = of_int (c + Tp)" by blast
      from T(5) [OF this] c show ?thesis by (simp add: add.assoc)
    qed
    with Tp T show ?thesis by auto
  qed
qed

lemma apply_requested_None:
  "apply_requested s now spent uid ids (None, applied) = Inr (acc, applied') \<Longrightarrow> acc = None"
proof (induction ids arbitrary: applied)
  case Nil
  then show ?case by simp
next
  case (Cons i ids)
  from Cons.prems obtain p where "find_promotion s i = Some p"
    by (cases "find_promotion s i") auto
  with Cons.prems have "apply_requested s now spent uid ids (None, applied @ [i]) = Inr (acc, applied')"
    by (auto split: if_splits)
  then show ?case by (rule Cons.IH)
qed

lemma apply_requested_earned:
  assumes "promotions_valid s" and "0 < spent" and "0 \<le> v0"
    and "apply_requested s now spent uid ids (Some v0, applied) = Inr (Some v, applied')"
  shows "\<exists>T. total (map (contribution spent) (List.map_filter (find_promotion s) ids)) = Some T
            \<and> 0 \<le> T \<and> 0 \<le> v \<and> applied' = applied @ ids
            \<and> (\<forall>c. v0 = of_int c \<and> c + T \<le> 2 ^ 53 \<longrightarrow> v = of_int (c + T))"
  using assms(3,4)
proof (induction ids arbitrary: v0 applied)
  case Nil
  then show ?case by (simp add: List.map_filter_simps)
next
  case (Cons i ids)
  from Cons.prems(2) obtain p where found: "find_promotion s i = Some p"
    by (cases "find_promotion s i") auto
  then have "p \<in> set (promotions s)"
    by (auto simp: find_promotion_def dest: find_Some_mem)
  from promotions_valid_mem [OF assms(1) this]
  have p: "\<And>r. p_rate p = Some r \<Longrightarrow> 0 < r" "\<And>n. p_points p = Some n \<Longrightarrow> 0 \<le> n"
    by simp_all
  from Cons.prems(2) found
  have rest: "apply_requested s now spent uid ids
                (add_promotion_points spent p (Some v0), applied @ [i]) = Inr (Some v, applied')"
    by (auto split: if_splits)
  show ?case
  proof (cases "add_promotion_points spent p (Some v0)")
    case None
    with rest apply_requested_None [of s now spent uid ids "applied @ [i]" "Some v" applied']
    show ?thesis by simp
  next
    case (Some v1)
    from add_promotion_points_step [OF p assms(2) Cons.prems(1) Some]
    obtain Tp where Tp: "contribution spent p = Some Tp" "0 \<le> Tp" "0 \<le> v1"
        "\<And>c. v0 = of_int c \<Longrightarrow> c + Tp \<le> 2 ^ 53 \<Longrightarrow> v1 = of_int (c + Tp)"
      by blast
    from rest Some have "apply_requested s now spent uid ids (Some v1, applied @ [i])
        = Inr (Some v, applied')"
      by simp
    from Cons.IH [OF Tp(3) this]
    obtain T where T: "total (map (contribution spent) (List.map_filter (find_promotion s) ids)) = Some T"
        "0 \<le> T" "0 \<le> v" "applied' = (applied @ [i]) @ ids"
        "\<And>c. v1 = of_int c \<Longrightarrow> c + T \<le> 2 ^ 53 \<Longrightarrow> v = of_int (c + T)"
      by auto
    have "v = of_int (c + (Tp + T))" if c: "v0 = of_int c \<and> c + (Tp + T) \<le> 2 ^ 53" for c
    proof -
      from c T(2) have "c + Tp \<le> 2 ^ 53" by simp
      with Tp(4) c have "v1 = of_int (c + Tp)" by blast
      from T(5) [OF this] c show ?thesis by (simp add: add.assoc)
    qed
    with Tp T found show ?thesis by (auto simp: List.map_filter_simps)
  qed
qed

lemma apply_requested_used:
  "pid \<in> set ids \<Longrightarrow> find_promotion s pid = Some p \<Longrightarrow> p_type p = Onetime \<Longrightarrow>
   uid \<in> set (p_usedBy p) \<Longrightarrow>
   \<exists>i msg. apply_requested s now spent uid ids acc = Inl (PromotionRejected i msg)"
proof (induction ids arbitrary: acc)
  case Nil
  then show ?case by simp
next
  case (Cons i ids)
  obtain e applied where acc: "acc = (e, applied)" by (cases acc)
  show ?case
  proof (cases "i = pid")
    case True
    with Cons.prems acc show ?thesis by simp
  next
    case False
    with Cons.prems have "pid \<in> set ids" by simp
    from Cons.IH [OF this Cons.prems(2-4)] acc show ?thesis
      by (auto split: option.splits)
  qed
qed

text \<open>The computation of a purchase against the earned points of the specification.\<close>

lemma computePurchasePoints_earned:
  assumes "promotions_valid s" and "0 < spent"
    and "computePurchasePoints s now spent uid ids = Inr (Some v, applied)"
  shows "\<exists>E. earned_points s now spent ids = Some E \<and> 0 \<le> E \<and> 0 \<le> v
            \<and> (E \<le> 2 ^ 53 \<longrightarrow> v = of_int E)
            \<and> applied = map p_id (filter (qualifies now spent) (promotions s)) @ ids"
proof -
  let ?autos = "filter (qualifies now spent) (promotions s)"
  obtain acc1 ids1 where auto1: "apply_automatic spent ?autos
      (Math_round (js_divide spent (1 / 4)), []) = (acc1, ids1)"
    by (cases "apply_automatic spent ?autos (Math_round (js_divide spent (1 / 4)), [])")
  with assms(3) have req: "apply_requested s now spent uid ids (acc1, ids1) = Inr (Some v, applied)"
    by (simp add: computePurchasePoints_def automaticPromotions_qualifies)
  then obtain v1 where v1: "acc1 = Some v1"
    using apply_requested_None [of s now spent uid ids ids1 "Some v" applied]
    by (cases acc1) auto
  obtain q0 where q0: "js_divide spent (1 / 4) = Some q0"
    using auto1 v1 apply_automatic_None [of spent ?autos "[]"]
    by (cases "js_divide spent (1 / 4)") (auto simp: Math_round_def)
  define c0 where "c0 = js_round q0"
  from js_divide_nonneg [OF _ _ q0] assms(2) have "0 \<le> q0" by simp
  then have c0: "0 \<le> c0" by (simp add: c0_def js_round_nonneg)
  have base: "rounded_quotient spent (1 / 4) = Some c0"
    by (simp add: rounded_quotient_def q0 c0_def)
  have valid_autos: "\<forall>p \<in> set ?autos. (\<forall>r. p_rate p = Some r \<longrightarrow> 0 < r)
      \<and> (\<forall>n. p_points p = Some n \<longrightarrow> 0 \<le> n)"
    using promotions_valid_mem [OF assms(1)] by auto
  from auto1 v1 q0 have "apply_automatic spent ?autos (Some (of_int c0), []) = (Some v1, ids1)"
    by (simp add: Math_round_def c0_def)
  from apply_automatic_earned [OF valid_autos assms(2) _ this] c0
  obtain Ta where Ta: "total (map (contribution spent) ?autos) = Some Ta" "0 \<le> Ta" "0 \<le> v1"
      "ids1 = map p_id ?autos"
      "\<And>c. rat_of_int c0 = of_int c \<Longrightarrow> c + Ta \<le> 2 ^ 53 \<Longrightarrow> v1 = of_int (c + Ta)"
    by auto
  from apply_requested_earned [OF assms(1,2) Ta(3)] req v1
  obtain Tr where Tr: "total (map (contribution spent) (List.map_filter (find_promotion s) ids)) = Some Tr"
      "0 \<le> Tr" "0 \<le> v" "applied = ids1 @ ids"
      "\<And>c. v1 = of_int c \<Longrightarrow> c + Tr \<le> 2 ^ 53 \<Longrightarrow> v = of_int (c + Tr)"
    by blast
  have E: "earned_points s now spent ids = Some (c0 + (Ta + Tr))"
    by (simp add: earned_points_def base total_append Ta(1) Tr(1))
  have "v = of_int (c0 + (Ta + Tr))" if "c0 + (Ta + Tr) \<le> 2 ^ 53"
  proof -
    from that Tr(2) have "c0 + Ta \<le> 2 ^ 53" by simp
    from Ta(5) [OF refl this] have "v1 = of_int (c0 + Ta)" .
    from Tr(5) [OF this] that show ?thesis by (simp add: add.assoc)
  qed
  with E c0 Ta Tr show ?thesis by auto
qed

lemma whole_part_of_int [simp]: "whole_part (of_int n) = n"
  by (simp add: whole_part_def)

lemma whole_part_nonneg: "0 \<le> q \<Longrightarrow> 0 \<le> whole_part q"
  by (simp add: whole_part_def)

lemma round_half_even_numeral [simp]: "round_half_even (numeral n) = numeral n"
  using round_half_even_of_int [of "numeral n"] by simp

lemma double_of_numeral:
  "(numeral n :: int) \<le> 2 ^ 53 \<Longrightarrow> double_of (numeral n) = Some (numeral n)"
  using double_of_int_exact [of "numeral n"] by simp

lemma binade_quarter: "binade (1 / 4) = - 2"
  by code_simp

lemma binade_half: "binade (1 / 2) = - 1"
  by code_simp

lemma double_of_quarter: "double_of (1 / 4) = Some (1 / 4)"
  by (simp add: double_of_def Let_def binade_quarter)

lemma double_of_half: "double_of (1 / 2) = Some (1 / 2)"
  by (simp add: double_of_def Let_def binade_half)

lemma js_divide_100_quarter: "js_divide 100 (1 / 4) = Some 400"
  by (simp add: js_divide_def double_of_numeral double_of_quarter)

lemma js_divide_100_half: "js_divide 100 (1 / 2) = Some 200"
  by (simp add: js_divide_def double_of_numeral double_of_half)

lemmas purchase_defs = post_transactions_def purchase_def nullish_def
  computePurchasePoints_def automaticPromotions_def safePromotionIds_def
  add_promotion_points_def Math_round_def js_round_def js_plus_def whole_part_def
  js_divide_100_quarter js_divide_100_half double_of_numeral
  transaction_create_def user_update_def promotion_update_def connect_usedBy_def
  increment_points_def next_transaction_id_def Let_def

lemmas earned_defs = earned_points_def base_and_automatic_def rounded_quotient_def
  contribution_def qualifies_def qualifies_half_open_def js_round_def
  js_divide_100_quarter js_divide_100_half List.map_filter_simps

lemma promotion_update_users:
  "promotion_update i f s = Some s' \<Longrightarrow> users s' = users s \<and> transactions s' = transactions s
      \<and> events s' = events s"
  by (auto simp: promotion_update_def)

lemma mark_used_users:
  "mark_used uid ids s = Some s' \<Longrightarrow> users s' = users s \<and> transactions s' = transactions s
      \<and> events s' = events s"
proof (induction ids arbitrary: s)
  case Nil
  then show ?case by simp
next
  case (Cons i ids)
  from Cons.prems obtain s1 where s1: "promotion_update i (connect_usedBy uid) s = Some s1"
      "mark_used uid ids s1 = Some s'"
    by (auto split: option.splits)
  from Cons.IH [OF s1(2)] promotion_update_users [OF s1(1)] show ?case by simp
qed

text \<open>What an accepted purchase returns and leaves in the user table.\<close>

lemma purchase_accepted:
  assumes ok: "purchase a b now s = (s', Inr r)"
  shows "\<exists>spent n usr cashier v applied t.
           b_spent b = JNum spent \<and> 0 < spent \<and> b_utorid b = JStr n
         \<and> find_user_by_utorid s n = Some usr
         \<and> find_user s (auth_id a) = Some cashier
         \<and> computePurchasePoints s now spent (u_id usr) (safePromotionIds b)
             = Inr (Some v, applied)
         \<and> r = Response 201 [t] \<and> t_type t = Purchase \<and> t_amount t = whole_part v
         \<and> t_spent t = Some spent
         \<and> t_suspicious t = u_suspicious cashier \<and> t_ownerUserId t = u_id usr
         \<and> t_promotions t = remdups applied
         \<and> transactions s' = transactions s @ [t]
         \<and> (\<forall>j. find_user s' j
                = (if j = u_id usr \<and> \<not> u_suspicious cashier
                   then map_option (increment_points (whole_part v)) (find_user s j)
                   else find_user s j))"
proof -
  from ok obtain spent where spent: "b_spent b = JNum spent" "0 < spent"
    by (cases "b_spent b") (auto simp: purchase_def nullish_def split: if_splits)
  from ok spent obtain n where n: "b_utorid b = JStr n"
    by (cases "b_utorid b") (auto simp: purchase_def nullish_def split: if_splits)
  from ok spent n obtain usr where usr: "find_user_by_utorid s n = Some usr"
    by (cases "find_user_by_utorid s n") (auto simp: purchase_def nullish_def split: if_splits)
  from ok spent n usr obtain e applied where
    comp0: "computePurchasePoints s now spent (u_id usr) (safePromotionIds b) = Inr (e, applied)"
    by (cases "computePurchasePoints s now spent (u_id usr) (safePromotionIds b)")
       (auto simp: purchase_def nullish_def split: if_splits)
  from ok spent n usr comp0 obtain cashier where cashier: "find_user s (auth_id a) = Some cashier"
    by (cases "find_user s (auth_id a)") (auto simp: purchase_def nullish_def split: if_splits)
  from ok spent n usr comp0 cashier obtain v where v: "e = Some v"
    by (cases e) (auto simp: purchase_def nullish_def Let_def split: if_splits)
  note comp = comp0 [unfolded v]
  let ?d = "transaction_defaults\<lparr>t_type := Purchase, t_amount := whole_part v,
              t_spent := Some spent,
              t_remark := b_remark b, t_suspicious := u_suspicious cashier,
              t_ownerUserId := u_id usr, t_creatorUserId := auth_id a,
              t_promotions := applied\<rparr>"
  from ok spent n usr comp cashier obtain s1 t where
    create: "transaction_create ?d s = Some (s1, t)"
    by (cases "transaction_create ?d s")
       (auto simp: purchase_def nullish_def Let_def split: if_splits)
  from transaction_create_Some [OF create]
  have t: "t = ?d\<lparr>t_id := next_transaction_id s, t_promotions := remdups (t_promotions ?d)\<rparr>"
    and s1: "s1 = s\<lparr>transactions := transactions s @ [t]\<rparr>"
    by simp_all
  show ?thesis
  proof (cases "u_suspicious cashier")
    case True
    with ok spent n usr comp cashier create have "s' = s1" "r = Response 201 [t]"
      by (auto simp: purchase_def nullish_def Let_def split: if_splits)
    with spent n usr cashier comp t s1 True show ?thesis
      by (auto simp: transaction_defaults_def)
  next
    case False
    with ok spent n usr comp cashier create obtain s2 where
        s2: "user_update (u_id usr) (increment_points (whole_part v)) s1 = Some s2"
      and used: "mark_used (u_id usr) (safePromotionIds b) s2 = Some s'"
      and r: "r = Response 201 [t]"
      by (auto simp: purchase_def nullish_def Let_def split: if_splits option.splits)
    have "\<forall>j. find_user s2 j
             = (if j = u_id usr then map_option (increment_points (whole_part v)) (find_user s j)
                else find_user s j)"
      using find_user_user_update [OF s2] s1 by simp
    moreover have "users s' = users s2" "transactions s' = transactions s1"
      using mark_used_users [OF used] user_update_events [OF s2] by simp_all
    ultimately have "\<forall>j. find_user s' j
             = (if j = u_id usr then map_option (increment_points (whole_part v)) (find_user s j)
                else find_user s j)"
      and "transactions s' = transactions s @ [t]"
      using s1 by (simp_all add: find_user_def)
    with spent n usr cashier comp t r False show ?thesis
      by (auto simp: transaction_defaults_def)
  qed
qed

section \<open>Purchases\<close>

text \<open>
  C2, as the code has it. Take a store in which every promotion has a positive rate and
  a flat bonus that is not negative, where defined, and an accepted purchase of
  \<open>spent\<close>. Its earned points are the sum of \<open>round(spent / 0.25)\<close> and of one contribution
  for each automatic promotion whose window \<open>startTime \<le> now \<le> endTime\<close> contains the
  time of the request, both ends included, and whose \<open>minSpending\<close> is absent or at most
  \<open>spent\<close>, and one for each requested one-time promotion. A contribution is
  \<open>round(spent / rate)\<close> when a rate is defined, plus the flat bonus when one is defined;
  each quotient is the double-precision quotient, rounded on its own by \<open>Math.round\<close>
  before the sum is taken. When that sum is below \<open>2 ^ 31\<close>, the request appends exactly one
  row to the transaction table, a purchase owned by the customer with the sum as its
  amount and the creating cashier's suspicious flag as its own, and the customer's
  balance grows by the sum exactly when that cashier is not suspicious.
\<close>

theorem purchase_points:
  assumes valid: "promotions_valid s"
    and ty: "b_type b = JStr ''purchase''"
    and spent: "b_spent b = JNum spent"
    and total: "earned_points s now spent (safePromotionIds b) = Some earned"
    and fits: "earned < 2 ^ 31"
    and ok: "post_transactions a b now s = (s', Inr r)"
  shows "\<exists>n usr cashier t.
           b_utorid b = JStr n
         \<and> find_user_by_utorid s n = Some usr
         \<and> find_user s (auth_id a) = Some cashier
         \<and> r = Response 201 [t]
         \<and> transactions s' = transactions s @ [t]
         \<and> t_type t = Purchase \<and> t_ownerUserId t = u_id usr \<and> t_spent t = Some spent
         \<and> t_amount t = earned
         \<and> t_suspicious t = u_suspicious cashier
         \<and> points_of s' (u_id usr)
             = map_option (\<lambda>p. if u_suspicious cashier then p else p + earned)
                 (points_of s (u_id usr))"
proof -
  from ok ty have "purchase a b now s = (s', Inr r)"
    by (simp add: post_transactions_def split: if_splits)
  from purchase_accepted [OF this] spent
  obtain n usr cashier v applied t where
      h: "0 < spent" "b_utorid b = JStr n"
        "find_user_by_utorid s n = Some usr" "find_user s (auth_id a) = Some cashier"
        "r = Response 201 [t]" "transactions s' = transactions s @ [t]"
        "t_type t = Purchase" "t_ownerUserId t = u_id usr" "t_spent t = Some spent"
        "t_suspicious t = u_suspicious cashier"
    and comp: "computePurchasePoints s now spent (u_id usr) (safePromotionIds b)
                 = Inr (Some v, applied)"
    and amount: "t_amount t = whole_part v"
    and users: "\<forall>j. find_user s' j
                = (if j = u_id usr \<and> \<not> u_suspicious cashier
                   then map_option (increment_points (whole_part v)) (find_user s j)
                   else find_user s j)"
    by auto
  from computePurchasePoints_earned [OF valid h(1) comp] total
  have "earned \<le> 2 ^ 53 \<longrightarrow> v = of_int earned"
    by auto
  with fits have v: "whole_part v = earned"
    by simp
  have "points_of s' (u_id usr)
          = map_option (\<lambda>p. if u_suspicious cashier then p else p + earned)
              (points_of s (u_id usr))"
    using users v
    by (cases "find_user s (u_id usr)") (simp_all add: points_of_def increment_points_def)
  with h amount v show ?thesis by auto
qed

text \<open>
  Scenario A: a purchase of 100.00 on the example store, whose only automatic promotion
  has rate 0.50, with no promotion requested, entered by the cashier who is not
  suspicious. The earned points are 400 + 200 = 600, the row is appended with amount
  600, and alice goes from 100 to 700.
\<close>

theorem purchase_points_witness:
  "promotions_valid example_store
   \<and> b_type example_purchase = JStr ''purchase''
   \<and> b_spent example_purchase = JNum 100
   \<and> filter (qualifies 10 100) (promotions example_store)
       = [\<lparr>p_id = 1, p_type = Automatic, p_startTime = 0, p_endTime = 1000,
           p_minSpending = None, p_rate = Some (1 / 2), p_points = None, p_usedBy = []\<rparr>]
   \<and> earned_points example_store 10 100 (safePromotionIds example_purchase) = Some 600
   \<and> (600 :: int) < 2 ^ 31
   \<and> points_of example_store 1 = Some 100
   \<and> (\<exists>s' t. post_transactions carol example_purchase 10 example_store
                 = (s', Inr (Response 201 [t]))
          \<and> transactions s' = transactions example_store @ [t]
          \<and> t_type t = Purchase \<and> t_ownerUserId t = 1
          \<and> t_amount t = 600 \<and> \<not> t_suspicious t \<and> points_of s' 1 = Some 700)"
proof -
  have valid: "promotions_valid example_store"
    by (simp add: promotions_valid_def example_store_def)
  have ty: "b_type example_purchase = JStr ''purchase''"
    and spent: "b_spent example_purchase = JNum 100"
    by (simp_all add: example_purchase_def)
  have autos: "filter (qualifies 10 100) (promotions example_store)
       = [\<lparr>p_id = 1, p_type = Automatic, p_startTime = 0, p_endTime = 1000,
           p_minSpending = None, p_rate = Some (1 / 2), p_points = None, p_usedBy = []\<rparr>]"
    by (simp add: qualifies_def example_store_def)
  have total: "earned_points example_store 10 100 (safePromotionIds example_purchase) = Some 600"
    by (simp add: earned_defs safePromotionIds_def example_purchase_def example_store_def)
  have fits: "(600 :: int) < 2 ^ 31"
    by simp
  have bal: "points_of example_store 1 = Some 100"
    by (simp add: example_defs)
  obtain s' r where ok: "post_transactions carol example_purchase 10 example_store = (s', Inr r)"
    by (simp add: purchase_defs example_defs)
  from purchase_points [OF valid ty spent total fits ok] obtain t where
      "r = Response 201 [t]" "transactions s' = transactions example_store @ [t]"
      "t_type t = Purchase" "t_ownerUserId t = 1"
      "t_amount t = 600" "\<not> t_suspicious t" "points_of s' 1 = Some 700"
    by (auto simp: example_defs)
  with ok valid ty spent autos total bal show ?thesis by simp
qed

text \<open>
  The claim that a purchase earns only the base points and the contributions of the
  automatic promotions whose window \<open>[startTime, endTime)\<close> contains the time of the
  request, credited to an owner who is not suspicious, evaluated three times for alice
  (not suspicious, 100 points). With the unused one-time promotion 3 requested, the
  honest cashier's purchase records and credits 650, not 600. Entered by the suspicious
  cashier, the purchase records 600 and credits nothing. At time 1000, the end of the
  automatic promotion's window, the purchase still records and credits 600, not 400.
\<close>

theorem purchase_points_counterexample:
  "base_and_automatic example_store 10 100 = Some 600
   \<and> map_option u_suspicious (find_user example_store 1) = Some False
   \<and> points_of example_store 1 = Some 100
   \<and> snd (post_transactions carol (example_purchase\<lparr>b_promotionIds := Some [3]\<rparr>)
            10 example_store)
       = Inr (Response 201
               [transaction_defaults\<lparr>t_id := 3, t_type := Purchase, t_amount := 650,
                  t_spent := Some 100, t_suspicious := False, t_ownerUserId := 1,
                  t_creatorUserId := 3, t_promotions := [1, 3]\<rparr>])
   \<and> points_of (fst (post_transactions carol (example_purchase\<lparr>b_promotionIds := Some [3]\<rparr>)
                        10 example_store)) 1 = Some 750
   \<and> snd (post_transactions dave example_purchase 10 example_store)
       = Inr (Response 201
               [transaction_defaults\<lparr>t_id := 3, t_type := Purchase, t_amount := 600,
                  t_spent := Some 100, t_suspicious := True, t_ownerUserId := 1,
                  t_creatorUserId := 4, t_promotions := [1]\<rparr>])
   \<and> points_of (fst (post_transactions dave example_purchase 10 example_store)) 1 = Some 100
   \<and> base_and_automatic example_store 1000 100 = Some 400
   \<and> snd (post_transactions carol example_purchase 1000 example_store)
       = Inr (Response 201
               [transaction_defaults\<lparr>t_id := 3, t_type := Purchase, t_amount := 600,
                  t_spent := Some 100, t_suspicious := False, t_ownerUserId := 1,
                  t_creatorUserId := 3, t_promotions := [1]\<rparr>])
   \<and> points_of (fst (post_transactions carol example_purchase 1000 example_store)) 1 = Some 700"
  by (simp add: purchase_defs earned_defs example_defs)

text \<open>
  C5. A purchase that lists a one-time promotion the purchasing user has already used
  fails with a client error and leaves the store as it was: no transaction row, no
  balance change, no usage recorded. When that promotion is the only one listed, is
  active, and the request is otherwise acceptable, the answer is the 400 saying that
  the promotion has already been used.
\<close>
theorem used_onetime_promotion_rejected:
  assumes ty: "b_type b = JStr ''purchase''"
    and name: "b_utorid b = JStr n"
    and usr: "find_user_by_utorid s n = Some usr"
    and listed: "pid \<in> set (safePromotionIds b)"
    and promo: "find_promotion s pid = Some p" "p_type p = Onetime"
    and used: "u_id usr \<in> set (p_usedBy p)"
  shows "(\<exists>e. post_transactions a b now s = (s, Inl e) \<and> e \<noteq> Uncaught)
       \<and> (n \<noteq> [] \<and> auth_role a \<in> {Cashier, Manager, Superuser}
            \<and> b_spent b = JNum spent \<and> 0 < spent
            \<and> safePromotionIds b = [pid] \<and> p_startTime p \<le> now \<and> now \<le> p_endTime p
          \<longrightarrow> post_transactions a b now s
                = (s, Inl (PromotionRejected pid ''has already been used'')))"
proof (intro conjI impI)
  have rej: "\<And>spent. \<exists>i msg. computePurchasePoints s now spent (u_id usr) (safePromotionIds b)
                = Inl (PromotionRejected i msg)"
    unfolding computePurchasePoints_def
    by (rule apply_requested_used [OF listed promo used])
  show "\<exists>e. post_transactions a b now s = (s, Inl e) \<and> e \<noteq> Uncaught"
  proof (cases "b_spent b")
    case (JNum spent)
    from rej [of spent] obtain i msg where
      "computePurchasePoints s now spent (u_id usr) (safePromotionIds b)
         = Inl (PromotionRejected i msg)"
      by blast
    with JNum ty name usr show ?thesis
      by (auto simp: post_transactions_def purchase_def nullish_def)
  qed (use ty name in \<open>auto simp: post_transactions_def purchase_def nullish_def\<close>)
next
  assume h: "n \<noteq> [] \<and> auth_role a \<in> {Cashier, Manager, Superuser}
            \<and> b_spent b = JNum spent \<and> 0 < spent
            \<and> safePromotionIds b = [pid] \<and> p_startTime p \<le> now \<and> now \<le> p_endTime p"
  then have "computePurchasePoints s now spent (u_id usr) (safePromotionIds b)
               = Inl (PromotionRejected pid ''has already been used'')"
    using promo used
    by (cases "apply_automatic spent (automaticPromotions s now spent)
                 (Math_round (js_divide spent (1 / 4)), [])")
       (simp add: computePurchasePoints_def)
  with h ty name usr show "post_transactions a b now s
                = (s, Inl (PromotionRejected pid ''has already been used''))"
    by (auto simp: post_transactions_def purchase_def nullish_def)
qed

text \<open>
  On the example store a purchase for alice that lists promotion 2, which she has used,
  is answered with ``has already been used'' and the store is unchanged.
\<close>
theorem used_onetime_promotion_rejected_witness:
  "map_option p_type (find_promotion example_store 2) = Some Onetime
   \<and> map_option p_usedBy (find_promotion example_store 2) = Some [1]
   \<and> map_option u_id (find_user_by_utorid example_store ''alice'') = Some 1
   \<and> post_transactions carol (example_purchase\<lparr>b_promotionIds := Some [2]\<rparr>) 10 example_store
       = (example_store, Inl (PromotionRejected 2 ''has already been used''))"
proof -
  let ?b = "example_purchase\<lparr>b_promotionIds := Some [2]\<rparr>"
  let ?p = "\<lparr>p_id = 2, p_type = Onetime, p_startTime = 0, p_endTime = 1000,
             p_minSpending = None, p_rate = None, p_points = Some 100, p_usedBy = [1]\<rparr>"
  let ?u = "example_user 1 ''alice'' Regular 100 True False"
  have ty: "b_type ?b = JStr ''purchase''" and name: "b_utorid ?b = JStr ''alice''"
    by (simp_all add: example_purchase_def)
  have usr: "find_user_by_utorid example_store ''alice'' = Some ?u"
    by (simp add: example_defs)
  have listed: "2 \<in> set (safePromotionIds ?b)"
    by (simp add: safePromotionIds_def)
  have promo: "find_promotion example_store 2 = Some ?p" "p_type ?p = Onetime"
    by (simp_all add: example_defs)
  have used: "u_id ?u \<in> set (p_usedBy ?p)"
    by (simp add: example_user_def)
  have rest: "''alice'' \<noteq> [] \<and> auth_role carol \<in> {Cashier, Manager, Superuser}
      \<and> b_spent ?b = JNum 100 \<and> (0::rat) < 100 \<and> safePromotionIds ?b = [2]
      \<and> p_startTime ?p \<le> 10 \<and> 10 \<le> p_endTime ?p"
    by (simp add: carol_def example_purchase_def safePromotionIds_def)
  from used_onetime_promotion_rejected [OF ty name usr listed promo used, of carol 10 100] rest
  have "post_transactions carol ?b 10 example_store
          = (example_store, Inl (PromotionRejected 2 ''has already been used''))"
    by blast
  with promo(1) usr show ?thesis
    by (simp add: example_user_def)
qed

section \<open>Balances below zero\<close>

lemma computePurchasePoints_nonneg:
  assumes "promotions_valid s" and "0 < spent"
    and "computePurchasePoints s now spent uid ids = Inr (Some v, applied)"
  shows "0 \<le> whole_part v"
  using computePurchasePoints_earned [OF assms] by (auto intro: whole_part_nonneg)

lemma user_update_nonneg:
  assumes "user_update i f s = Some s'" and "balances_nonneg s"
    and "\<And>u. find_user s i = Some u \<Longrightarrow> 0 \<le> u_points u \<Longrightarrow> 0 \<le> u_points (f u)"
  shows "balances_nonneg s'"
proof -
  from user_update_Some [OF assms(1)] obtain u us where
      u: "find_user s i = Some u" "s' = s\<lparr>users := us\<rparr>"
        "set us \<subseteq> insert (f u) (set (users s))"
    by blast
  from u(1) have "u \<in> set (users s)"
    by (auto simp: find_user_def dest: find_Some_mem)
  with assms(2) have "0 \<le> u_points u"
    by (simp add: balances_nonneg_def list_all_iff)
  with assms(3) [OF u(1)] have "0 \<le> u_points (f u)" .
  with u(2,3) assms(2) show ?thesis
    by (auto simp: balances_nonneg_def list_all_iff)
qed

lemma increment_nonneg:
  "user_update i (increment_points n) s = Some s' \<Longrightarrow> balances_nonneg s \<Longrightarrow> 0 \<le> n \<Longrightarrow>
   balances_nonneg s' \<and> promotions_valid s' = promotions_valid s"
  by (auto simp: increment_points_def promotions_valid_def
      dest: user_update_events intro: user_update_nonneg)

lemma transaction_create_sound:
  "transaction_create d s = Some (s', t) \<Longrightarrow>
   balances_nonneg s' = balances_nonneg s \<and> promotions_valid s' = promotions_valid s"
  by (auto simp: balances_nonneg_def promotions_valid_def dest!: transaction_create_events)

lemma promotion_update_valid:
  assumes "promotion_update i (connect_usedBy uid) s = Some s'" and "promotions_valid s"
  shows "promotions_valid s'"
proof -
  from assms(1) obtain ps where
      ps: "update_first (\<lambda>p. p_id p = i) (connect_usedBy uid) (promotions s) = Some ps"
        "promotions s' = ps"
    by (auto simp: promotion_update_def)
  from update_first_Some_find [OF ps(1)] obtain p where
      p: "find (\<lambda>p. p_id p = i) (promotions s) = Some p"
        "set ps \<subseteq> insert (connect_usedBy uid p) (set (promotions s))"
    by blast
  from p(1) have "p \<in> set (promotions s)"
    by (auto dest: find_Some_mem)
  with assms(2) p(2) ps(2) show ?thesis
    by (auto simp: promotions_valid_def list_all_iff connect_usedBy_def)
qed

lemma mark_used_sound:
  "mark_used uid ids s = Some s' \<Longrightarrow> promotions_valid s \<Longrightarrow>
   promotions_valid s' \<and> balances_nonneg s' = balances_nonneg s"
proof (induction ids arbitrary: s)
  case Nil
  then show ?case by simp
next
  case (Cons i ids)
  from Cons.prems(1) obtain s1 where s1: "promotion_update i (connect_usedBy uid) s = Some s1"
      "mark_used uid ids s1 = Some s'"
    by (auto split: option.splits)
  from promotion_update_valid [OF s1(1) Cons.prems(2)] have v1: "promotions_valid s1" .
  from promotion_update_users [OF s1(1)] have "balances_nonneg s1 = balances_nonneg s"
    by (simp add: balances_nonneg_def)
  with Cons.IH [OF s1(2) v1] show ?case by simp
qed

lemma purchase_store:
  "fst (purchase a b now s) = s
   \<or> (\<exists>spent n usr v applied cashier s1 t.
         b_spent b = JNum spent \<and> 0 < spent \<and> b_utorid b = JStr n
       \<and> find_user_by_utorid s n = Some usr
       \<and> computePurchasePoints s now spent (u_id usr) (safePromotionIds b)
           = Inr (Some v, applied)
       \<and> find_user s (auth_id a) = Some cashier
       \<and> transaction_create
            (transaction_defaults\<lparr>t_type := Purchase, t_amount := whole_part v,
               t_spent := Some spent,
               t_remark := b_remark b, t_suspicious := u_suspicious cashier,
               t_ownerUserId := u_id usr, t_creatorUserId := auth_id a,
               t_promotions := applied\<rparr>) s = Some (s1, t)
       \<and> (fst (purchase a b now s) = s1
          \<or> (\<exists>s2. user_update (u_id usr) (increment_points (whole_part v)) s1 = Some s2
                \<and> (fst (purchase a b now s) = s2
                   \<or> mark_used (u_id usr) (safePromotionIds b) s2
                       = Some (fst (purchase a b now s))))))"
proof (cases "b_spent b")
  case (JNum spent)
  show ?thesis
  proof (cases "b_utorid b")
    case (JStr n)
    show ?thesis
    proof (cases "find_user_by_utorid s n")
      case None
      with JNum JStr show ?thesis by (simp add: purchase_def)
    next
      case (Some usr)
      show ?thesis
      proof (cases "computePurchasePoints s now spent (u_id usr) (safePromotionIds b)")
        case (Inl err)
        with JNum JStr Some show ?thesis by (simp add: purchase_def)
      next
        case (Inr res)
        obtain e applied where res: "res = (e, applied)" by (cases res)
        show ?thesis
        proof (cases "find_user s (auth_id a)")
          case None
          with JNum JStr Some Inr res show ?thesis by (simp add: purchase_def)
        next
          case cashier: (Some cashier)
          show ?thesis
          proof (cases e)
            case None
            with JNum JStr Some Inr res cashier show ?thesis
              by (simp add: purchase_def Let_def)
          next
            case points: (Some v)
            let ?d = "transaction_defaults\<lparr>t_type := Purchase, t_amount := whole_part v,
                 t_spent := Some spent,
                 t_remark := b_remark b, t_suspicious := u_suspicious cashier,
                 t_ownerUserId := u_id usr, t_creatorUserId := auth_id a,
                 t_promotions := applied\<rparr>"
            show ?thesis
            proof (cases "transaction_create ?d s")
              case None
              with JNum JStr Some Inr res cashier points show ?thesis
                by (simp add: purchase_def Let_def)
            next
              case created: (Some p)
              obtain s1 t where p: "p = (s1, t)" by (cases p)
              show ?thesis
              proof (cases "auth_role a \<notin> {Cashier, Manager, Superuser} \<or> spent \<le> 0")
                case True
                with JNum show ?thesis by (auto simp: purchase_def nullish_def)
              next
                case False
                then have pos: "0 < spent" by simp
                from False JNum JStr Some Inr res cashier points created p
                have "fst (purchase a b now s) = s1
                  \<or> (\<exists>s2. user_update (u_id usr) (increment_points (whole_part v)) s1 = Some s2
                        \<and> (fst (purchase a b now s) = s2
                           \<or> mark_used (u_id usr) (safePromotionIds b) s2
                               = Some (fst (purchase a b now s))))"
                  by (auto simp: purchase_def nullish_def Let_def split: option.splits)
                with JNum JStr Some Inr res cashier points created p pos show ?thesis
                  by blast
              qed
            qed
          qed
        qed
      qed
    qed
  qed (use JNum in \<open>auto simp: purchase_def nullish_def\<close>)
qed (auto simp: purchase_def nullish_def)

lemma purchase_sound:
  assumes "balances_nonneg s" and "promotions_valid s"
  shows "balances_nonneg (fst (purchase a b now s)) \<and> promotions_valid (fst (purchase a b now s))"
  using purchase_store [of a b now s]
proof (elim disjE exE conjE)
  assume "fst (purchase a b now s) = s"
  with assms show ?thesis by simp
next
  fix spent usr v applied d s1 t
  assume create: "transaction_create d s = Some (s1, t)"
    and "fst (purchase a b now s) = s1"
  with transaction_create_sound [OF create] assms show ?thesis by simp
next
  fix spent usr v applied d s1 t s2
  assume pos: "0 < spent"
    and comp: "computePurchasePoints s now spent (u_id usr) (safePromotionIds b)
                 = Inr (Some v, applied)"
    and create: "transaction_create d s = Some (s1, t)"
    and u: "user_update (u_id usr) (increment_points (whole_part v)) s1 = Some s2"
    and "fst (purchase a b now s) = s2"
  moreover from transaction_create_sound [OF create] assms
  have s1: "balances_nonneg s1" "promotions_valid s1"
    by simp_all
  moreover note increment_nonneg [OF u s1(1) computePurchasePoints_nonneg [OF assms(2) pos comp]]
  ultimately show ?thesis by simp
next
  fix spent usr v applied d s1 t s2
  assume pos: "0 < spent"
    and comp: "computePurchasePoints s now spent (u_id usr) (safePromotionIds b)
                 = Inr (Some v, applied)"
    and create: "transaction_create d s = Some (s1, t)"
    and u: "user_update (u_id usr) (increment_points (whole_part v)) s1 = Some s2"
    and m: "mark_used (u_id usr) (safePromotionIds b) s2 = Some (fst (purchase a b now s))"
  from transaction_create_sound [OF create] assms
  have s1: "balances_nonneg s1" "promotions_valid s1"
    by simp_all
  from increment_nonneg [OF u s1(1) computePurchasePoints_nonneg [OF assms(2) pos comp]] s1(2)
  have s2: "balances_nonneg s2" "promotions_valid s2"
    by simp_all
  from mark_used_sound [OF m s2(2)] s2(1) show ?thesis by simp
qed

lemma balances_nonneg_transactions [simp]:
  "balances_nonneg (s\<lparr>transactions := ts\<rparr>) = balances_nonneg s"
  by (simp add: balances_nonneg_def)

lemma promotions_valid_transactions [simp]:
  "promotions_valid (s\<lparr>transactions := ts\<rparr>) = promotions_valid s"
  by (simp add: promotions_valid_def)

lemma user_update_valid:
  "user_update i f s = Some s' \<Longrightarrow> promotions_valid s' = promotions_valid s"
  by (auto simp: promotions_valid_def dest: user_update_events)

lemma decrement_nonneg:
  "user_update i (decrement_points n) s = Some s' \<Longrightarrow> balances_nonneg s \<Longrightarrow>
   find_user s i = Some u \<Longrightarrow> n \<le> u_points u \<Longrightarrow> balances_nonneg s'"
  by (erule user_update_nonneg) (auto simp: decrement_points_def)

lemma increment_balances:
  "user_update i (increment_points n) s = Some s' \<Longrightarrow> balances_nonneg s \<Longrightarrow> 0 \<le> n \<Longrightarrow>
   balances_nonneg s'"
  by (simp add: increment_nonneg)

lemma transfer_steps:
  assumes "user_update r (increment_points n) s3 = Some s4"
    and "user_update i (decrement_points n) (s\<lparr>transactions := ts\<rparr>) = Some s3"
    and "find_user s i = Some u" and "\<not> u_points u < n" and "\<not> n \<le> 0"
    and "balances_nonneg s"
  shows "balances_nonneg s4"
proof -
  from assms(3) have "find_user (s\<lparr>transactions := ts\<rparr>) i = Some u"
    by simp
  from decrement_nonneg [OF assms(2) _ this] assms(4,6) have "balances_nonneg s3"
    by simp
  from increment_balances [OF assms(1) this] assms(5) show ?thesis
    by simp
qed

lemma post_user_transactions_sound:
  assumes "balances_nonneg s" and "promotions_valid s"
  shows "balances_nonneg (fst (post_user_transactions a userId type amount remark s))
       \<and> promotions_valid (fst (post_user_transactions a userId type amount remark s))"
  using assms
  by (auto simp: post_user_transactions_def Let_def user_update_valid
      split: jsval.splits option.splits if_splits prod.splits
      dest!: transaction_create_Some
      intro: increment_balances decrement_nonneg transfer_steps)

lemma post_me_transactions_sound:
  assumes "balances_nonneg s" and "promotions_valid s"
  shows "balances_nonneg (fst (post_me_transactions a type amount remark s))
       \<and> promotions_valid (fst (post_me_transactions a type amount remark s))"
  using assms
  by (auto simp: post_me_transactions_def Let_def
      split: jsval.splits option.splits if_splits prod.splits
      dest!: transaction_create_Some)

lemma apply_updateData_nonneg:
  "user_update i (apply_updateData d) s = Some s' \<Longrightarrow> balances_nonneg s \<Longrightarrow> balances_nonneg s'"
  by (erule user_update_nonneg) (auto simp: apply_updateData_def)

lemma patch_user_sound:
  assumes "balances_nonneg s" and "promotions_valid s"
  shows "balances_nonneg (fst (patch_user a userId b s))
       \<and> promotions_valid (fst (patch_user a userId b s))"
  using assms
  by (auto simp: patch_user_def user_update_valid
      split: option.splits if_splits sum.splits
      intro: apply_updateData_nonneg)

lemma award_guests_sound:
  "balances_nonneg s \<Longrightarrow> promotions_valid s \<Longrightarrow> 0 \<le> amount \<Longrightarrow>
   balances_nonneg (fst (award_guests evtId cur amount remark guests s created))
   \<and> promotions_valid (fst (award_guests evtId cur amount remark guests s created))"
proof (induction guests arbitrary: s created)
  case Nil
  then show ?case by simp
next
  case (Cons g guests)
  let ?d = "transaction_defaults\<lparr>t_type := Event, t_amount := amount, t_remark := remark,
              t_ownerUserId := g, t_creatorUserId := cur, t_eventId := Some evtId\<rparr>"
  show ?case
  proof (cases "transaction_create ?d s")
    case None
    with Cons.prems show ?thesis by simp
  next
    case (Some p)
    obtain s1 t where p: "p = (s1, t)" by (cases p)
    from Some p transaction_create_sound [of ?d s s1 t] Cons.prems
    have s1: "balances_nonneg s1" "promotions_valid s1"
      by simp_all
    show ?thesis
    proof (cases "user_update g (increment_points amount) s1")
      case None
      with Some p s1 show ?thesis by simp
    next
      case s2: (Some s2)
      from increment_nonneg [OF s2 s1(1) Cons.prems(3)] s1(2)
      have "balances_nonneg s2" "promotions_valid s2"
        by simp_all
      from Cons.IH [OF this Cons.prems(3), of "created @ [t]"] Some p s2 show ?thesis
        by simp
    qed
  qed
qed

lemma event_update_sound:
  "event_update i f s = Some s' \<Longrightarrow>
   balances_nonneg s' = balances_nonneg s \<and> promotions_valid s' = promotions_valid s"
  by (auto simp: event_update_def balances_nonneg_def promotions_valid_def)

lemma award_guests_sound_eq:
  "award_guests evtId cur amount remark guests s created = (s', res) \<Longrightarrow>
   (balances_nonneg s \<and> promotions_valid s \<and> 0 \<le> amount \<longrightarrow>
    balances_nonneg s' \<and> promotions_valid s')"
  using award_guests_sound [of s amount evtId cur remark guests created] by simp

lemma post_event_transactions_sound:
  assumes "balances_nonneg s" and "promotions_valid s"
  shows "balances_nonneg (fst (post_event_transactions a eventId type utorid amount remark s))
       \<and> promotions_valid (fst (post_event_transactions a eventId type utorid amount remark s))"
  using assms
  apply (cases "post_event_transactions a eventId type utorid amount remark s")
  apply (auto simp: post_event_transactions_def Let_def user_update_valid
      split: jsval.splits option.splits if_splits prod.splits
      dest!: transaction_create_Some event_update_sound award_guests_sound_eq
      intro: increment_balances)
  done

lemma post_transactions_sound:
  assumes "balances_nonneg s" and "promotions_valid s" and "b_type b \<noteq> JStr ''adjustment''"
  shows "balances_nonneg (fst (post_transactions a b now s))
       \<and> promotions_valid (fst (post_transactions a b now s))"
  using assms purchase_sound [of s a b now] by (simp add: post_transactions_def)

lemma handle_sound:
  assumes "balances_nonneg s" and "promotions_valid s" and "\<not> unguarded r"
  shows "balances_nonneg (fst (handle r s)) \<and> promotions_valid (fst (handle r s))"
proof (cases r)
  case (PostTransactions a b now)
  with assms show ?thesis by (simp add: post_transactions_sound)
next
  case (PostMeTransactions a ty am rem)
  with assms show ?thesis by (simp add: post_me_transactions_sound)
next
  case (PostUserTransactions a i ty am rem)
  with assms show ?thesis by (simp add: post_user_transactions_sound)
next
  case (PostEventTransactions a i ty u am rem)
  with assms show ?thesis by (simp add: post_event_transactions_sound)
next
  case (PatchUser a i b)
  with assms show ?thesis by (simp add: patch_user_sound)
qed (use assms in simp_all)

lemma serve_sound:
  "balances_nonneg s \<Longrightarrow> promotions_valid s \<Longrightarrow> \<forall>r \<in> set rs. \<not> unguarded r \<Longrightarrow>
   balances_nonneg (serve rs s) \<and> promotions_valid (serve rs s)"
proof (induction rs arbitrary: s)
  case Nil
  then show ?case by simp
next
  case (Cons r rs)
  from Cons.prems have "\<not> unguarded r" by simp
  from handle_sound [OF Cons.prems(1,2) this] Cons.prems(3) Cons.IH [of "fst (handle r s)"]
  show ?case by simp
qed

text \<open>
  C1, as the code has it. Starting from a store in which every balance is at least zero
  and every promotion has a positive rate and a flat bonus that is not negative, every
  balance is at least zero after each request of any sequence of purchases, redemption
  requests, transfers, event awards and user updates, whether the request is accepted
  or refused. Adjustments, the suspicious-flag toggle and the processing of a
  redemption are not covered: they add or subtract an amount that nothing compares
  with the balance.
\<close>

theorem guarded_requests_keep_balances_nonneg:
  assumes "balances_nonneg s" and "promotions_valid s"
    and "\<forall>r \<in> set rs. \<not> unguarded r"
  shows "balances_nonneg (serve (take k rs) s)"
proof -
  from assms(3) have "\<forall>r \<in> set (take k rs). \<not> unguarded r"
    by (auto dest: in_set_takeD)
  from serve_sound [OF assms(1,2) this] show ?thesis by simp
qed

text \<open>
  On the example store, after a purchase of 100.00 for alice, her transfer of 50 to bob,
  frank's redemption request and an award of 10 to alice, the balances are 660, 50, 0,
  0, 0, 150 and 150.
\<close>

theorem guarded_requests_keep_balances_nonneg_witness:
  "balances_nonneg example_store \<and> promotions_valid example_store
   \<and> list_all (Not \<circ> unguarded) example_requests
   \<and> balances_nonneg (serve (take 4 example_requests) example_store)
   \<and> map u_points (users (serve (take 4 example_requests) example_store))
       = [660, 50, 0, 0, 0, 150, 150]"
proof -
  have inv: "balances_nonneg example_store"
    by (simp add: balances_nonneg_def example_store_def example_user_def)
  have valid: "promotions_valid example_store"
    by (simp add: promotions_valid_def example_store_def)
  have guarded: "\<forall>r \<in> set example_requests. \<not> unguarded r"
    by (simp add: example_requests_def example_purchase_def)
  have run: "map u_points (users (serve (take 4 example_requests) example_store))
       = [660, 50, 0, 0, 0, 150, 150]"
    by (simp add: example_requests_def purchase_defs
        post_user_transactions_def post_me_transactions_def post_event_transactions_def
        example_defs event_update_def decrement_points_def)
  from guarded_requests_keep_balances_nonneg [OF inv valid guarded, of 4] inv valid guarded run
  show ?thesis
    by (simp add: list_all_iff)
qed

text \<open>
  The claim that no accepted request leaves a balance below zero, evaluated on the
  example store, where every balance is at least zero: the manager's adjustment of -10
  for bob is accepted and leaves him at -10; processing alice's pending redemption of
  120 is accepted and leaves her at -20; and after her withheld purchase of 600 is
  released, 650 points are transferred to bob and the purchase is flagged again, she
  is at -550.
\<close>

theorem balance_below_zero:
  "balances_nonneg example_store
   \<and> points_of example_store 2 = Some 0
   \<and> snd (post_transactions mallory example_adjustment 10 example_store)
       = Inr (Response 201
               [transaction_defaults\<lparr>t_id := 3, t_type := Adjustment, t_amount := - 10,
                  t_ownerUserId := 2, t_creatorUserId := 5,
                  t_relatedTransactionId := Some 1\<rparr>])
   \<and> points_of (fst (post_transactions mallory example_adjustment 10 example_store)) 2
       = Some (- 10)
   \<and> \<not> balances_nonneg (fst (post_transactions mallory example_adjustment 10 example_store))
   \<and> points_of example_store 1 = Some 100
   \<and> snd (patch_processed carol (Some 2) (JBool True) example_store)
       = Inr (Response 200
               [transaction_defaults\<lparr>t_id := 2, t_type := Redemption, t_amount := - 120,
                  t_redeemed := Some 120, t_ownerUserId := 1, t_creatorUserId := 1,
                  t_processorUserId := Some 3\<rparr>])
   \<and> points_of (fst (patch_processed carol (Some 2) (JBool True) example_store)) 1
       = Some (- 20)
   \<and> points_of (serve example_release_spend_flag example_store) 1 = Some (- 550)
   \<and> points_of (serve example_release_spend_flag example_store) 2 = Some 650"
  by (simp add: post_transactions_def adjustment_def patch_processed_def patch_suspicious_def
      post_user_transactions_def example_release_spend_flag_def example_defs nullish_def
      requireRole_def safePromotionIds_def transaction_create_def next_transaction_id_def
      transaction_update_def user_update_def promotion_update_def connect_usedBy_def
      increment_points_def decrement_points_def balances_nonneg_def whole_part_def Let_def)

end
